theory Spec2Isabelle
  imports Complex_Main
begin

section \<open>Values, errors and tensors\<close>

text \<open>
  The development embeds \<^verbatim>\<open>src/models/dynamics.py\<close>: the class \<^verbatim>\<open>DynamicsModel\<close> with its
  methods \<^verbatim>\<open>forward\<close> and \<^verbatim>\<open>forward_inference\<close> (the iterative decoder) and the local
  function \<^verbatim>\<open>exp_schedule_torch\<close>.

  Every exception the Python can raise on the modelled paths is a value of \<open>error\<close>; a
  function that can raise returns \<open>error + 'a\<close> with \<open>Inl\<close> for the exception.
\<close>

datatype error =
    AssertionError
  | ValueError
  | OverflowError
  | RuntimeError
  | IndexError
  | ZeroDivisionError

definition ebind :: "error + 'a \<Rightarrow> ('a \<Rightarrow> error + 'b) \<Rightarrow> error + 'b" where
  "ebind m f = (case m of Inl e \<Rightarrow> Inl e | Inr x \<Rightarrow> f x)"

text \<open>A Python \<^verbatim>\<open>for\<close> loop over a list whose body updates a state and may raise.\<close>

fun foldM :: "('a \<Rightarrow> 's \<Rightarrow> error + 's) \<Rightarrow> 'a list \<Rightarrow> 's \<Rightarrow> error + 's" where
  "foldM f [] s = Inr s"
| "foldM f (x # xs) s = (case f x s of Inl e \<Rightarrow> Inl e | Inr s' \<Rightarrow> foldM f xs s')"

fun mapM :: "('a \<Rightarrow> error + 'b) \<Rightarrow> 'a list \<Rightarrow> error + 'b list" where
  "mapM f [] = Inr []"
| "mapM f (x # xs) =
     (case f x of
        Inl e \<Rightarrow> Inl e
      | Inr y \<Rightarrow> (case mapM f xs of Inl e \<Rightarrow> Inl e | Inr ys \<Rightarrow> Inr (y # ys)))"

text \<open>
  A scalar held by a floating-point tensor: a finite number or one of the three special
  values. Finite values are rationals (every finite float is one). Tensor division does
  not raise: dividing by zero gives a special value.
\<close>

datatype fval = Finite rat | PInf | NInf | NaN

definition tdiv :: "rat \<Rightarrow> rat \<Rightarrow> fval" where
  "tdiv a b =
     (if b = 0 then (if a = 0 then NaN else if 0 < a then PInf else NInf)
      else Finite (a / b))"

text \<open>
  \<^verbatim>\<open>mask.to(torch.float32)\<close> turns a mask bit into 1.0 or 0.0. Multiplying a float by
  such a value is exact (IEEE 754): \<open>x * 1.0\<close> is \<open>x\<close>; \<open>x * 0.0\<close> is a zero for a finite
  \<open>x\<close> and NaN for an infinite \<open>x\<close> or NaN. \<^verbatim>\<open>clamp_min\<close> is exact as well and lets NaN
  through.
\<close>

definition mask_to_float :: "bool \<Rightarrow> fval" where
  "mask_to_float v = (if v then Finite 1 else Finite 0)"

definition mul_indicator :: "fval \<Rightarrow> bool \<Rightarrow> fval" where
  "mul_indicator x v =
     (if v then x else (case x of Finite q \<Rightarrow> Finite 0 | PInf \<Rightarrow> NaN | NInf \<Rightarrow> NaN | NaN \<Rightarrow> NaN))"

definition clamp_min :: "fval \<Rightarrow> rat \<Rightarrow> fval" where
  "clamp_min v c =
     (case v of Finite q \<Rightarrow> Finite (max q c) | PInf \<Rightarrow> PInf | NInf \<Rightarrow> Finite c | NaN \<Rightarrow> NaN)"

text \<open>
  \<^verbatim>\<open>int(torch.ceil(v).item())\<close>: Python's \<^verbatim>\<open>int\<close> raises \<^verbatim>\<open>ValueError\<close> on NaN and
  \<^verbatim>\<open>OverflowError\<close> on an infinity.
\<close>

definition ceil_item :: "fval \<Rightarrow> error + int" where
  "ceil_item v =
     (case v of
        Finite q \<Rightarrow> Inr \<lceil>q\<rceil>
      | NaN \<Rightarrow> Inl ValueError
      | PInf \<Rightarrow> Inl OverflowError
      | NInf \<Rightarrow> Inl OverflowError)"

text \<open>
  A dense tensor with three index dimensions, \<^verbatim>\<open>[B, T, P]\<close>; a trailing dimension
  (\<^verbatim>\<open>L\<close> for latents, \<^verbatim>\<open>K\<close> for logits) is the cell's content, of the element type.
  The shape is part of the value, so an empty tensor still knows \<^verbatim>\<open>P\<close>.
\<close>

record 'a tensor =
  dim0 :: nat
  dim1 :: nat
  dim2 :: nat
  cell :: "nat \<Rightarrow> nat \<Rightarrow> nat \<Rightarrow> 'a"

definition numel :: "'a tensor \<Rightarrow> nat" where
  "numel x = dim0 x * dim1 x * dim2 x"

text \<open>\<^verbatim>\<open>x.reshape(-1)[i]\<close> of a contiguous tensor: row-major order.\<close>

definition flat :: "'a tensor \<Rightarrow> nat \<Rightarrow> 'a" where
  "flat x i = cell x (i div (dim1 x * dim2 x)) (i div dim2 x mod dim1 x) (i mod dim2 x)"

text \<open>\<^verbatim>\<open>m.any()\<close> of a boolean tensor.\<close>

definition tensor_any :: "bool tensor \<Rightarrow> bool" where
  "tensor_any m =
     list_ex (\<lambda>b. list_ex (\<lambda>t. list_ex (\<lambda>p. cell m b t p) [0..<dim2 m]) [0..<dim1 m])
       [0..<dim0 m]"

section \<open>The model, the library kernels and the random draws\<close>

text \<open>
  \<open>logits_net\<close> stands for lines 56 to 64 of \<^verbatim>\<open>forward\<close>: the latent embedding, the
  spatial positional encoding, the transformer and the output projection. Their sources
  are not part of the repository's files here; the composition is taken as a function
  of the latent grid and the conditioning that gives the logits row of every cell, and
  it is taken not to raise. \<open>self_training\<close> is \<^verbatim>\<open>nn.Module.training\<close>.
\<close>

record ('l, 'cond, 'r) dynamics_model =
  mask_token :: 'l
  self_training :: bool
  logits_net :: "'l tensor \<Rightarrow> 'cond \<Rightarrow> nat \<Rightarrow> nat \<Rightarrow> nat \<Rightarrow> 'r"

text \<open>
  The PyTorch kernels applied to one logits row (type \<open>'r\<close>); \<open>'c\<close> is the type of a
  probability as \<^verbatim>\<open>topk\<close> orders it. \<open>cross_entropy\<close> raises on a target outside the
  classes; its value is a float32: finite, infinite or NaN, as the logits make it.
  \<open>tensor_sum\<close> is \<^verbatim>\<open>Tensor.sum()\<close> of a one-dimensional float32 tensor and \<open>tensor_div\<close>
  the division of two float32 scalars; both round as the library does and neither
  raises.
\<close>

record ('r, 'c) torch_ops =
  div_scalar :: "'r \<Rightarrow> rat \<Rightarrow> 'r"
  softmax :: "'r \<Rightarrow> 'r"
  max_values :: "'r \<Rightarrow> 'c"
  max_indices :: "'r \<Rightarrow> nat"
  cross_entropy :: "'r \<Rightarrow> int \<Rightarrow> error + fval"
  tensor_sum :: "fval list \<Rightarrow> fval"
  tensor_div :: "fval \<Rightarrow> fval \<Rightarrow> fval"

text \<open>
  The state of the random generator, as the draws the code takes from it:
  \<open>rand_scalar\<close> is \<^verbatim>\<open>torch.rand(())\<close> (line 42), \<open>rand_grid\<close> is \<^verbatim>\<open>torch.rand(B, T, P)\<close>
  (line 43), \<open>randint_raw\<close> feeds \<^verbatim>\<open>torch.randint\<close> (line 47), and \<open>categorical m b t p\<close>
  is the draw of \<^verbatim>\<open>Categorical(...).sample()\<close> (line 124) at decode step \<open>m\<close> for the
  row of cell \<open>(b, t, p)\<close>.
\<close>

record 'r rng =
  rand_scalar :: rat
  rand_grid :: "nat \<Rightarrow> nat \<Rightarrow> nat \<Rightarrow> rat"
  randint_raw :: "nat \<Rightarrow> nat \<Rightarrow> nat"
  categorical :: "nat \<Rightarrow> nat \<Rightarrow> nat \<Rightarrow> nat \<Rightarrow> 'r \<Rightarrow> nat"

text \<open>
  \<^verbatim>\<open>torch.randint(low, high, size)\<close>: raises unless \<^verbatim>\<open>low < high\<close>; every value of
  \<^verbatim>\<open>[low, high)\<close> can be drawn and no other.
\<close>

definition randint :: "nat \<Rightarrow> nat \<Rightarrow> (nat \<Rightarrow> nat \<Rightarrow> nat) \<Rightarrow> error + (nat \<Rightarrow> nat \<Rightarrow> nat)" where
  "randint low high raw =
     (if low < high then Inr (\<lambda>b p. low + raw b p mod (high - low)) else Inl RuntimeError)"

section \<open>forward\<close>

text \<open>
  Lines 40 to 54: the training-time masking. The result is the Mask State (or \<^verbatim>\<open>None\<close>)
  and the latents after the mask token has been substituted.
\<close>

definition apply_masking ::
  "('l, 'cond, 'r) dynamics_model \<Rightarrow> 'r rng \<Rightarrow> 'l tensor \<Rightarrow> bool \<Rightarrow>
     error + (bool tensor option \<times> 'l tensor)" where
  "apply_masking M g discrete_latents training =
     (let B = dim0 discrete_latents; T = dim1 discrete_latents; P = dim2 discrete_latents in
      if training \<and> self_training M then
        let mask_ratio = 1 / 2 + rand_scalar g * (1 / 2);
            mask_positions = (\<lambda>b t p. rand_grid g b t p < mask_ratio)
        in ebind (randint 0 T (randint_raw g)) (\<lambda>anchor_idx.
             let anchored = (\<lambda>b t p. if b < B \<and> p < P \<and> t = anchor_idx b p then False
                                       else mask_positions b t p);
                 masked = \<lparr>dim0 = B, dim1 = T, dim2 = P, cell = anchored\<rparr>
             in Inr (Some masked,
                     discrete_latents
                       \<lparr>cell := (\<lambda>b t p. if anchored b t p then mask_token M
                                           else cell discrete_latents b t p)\<rparr>))
      else Inr (None, discrete_latents))"

text \<open>
  Lines 66 to 76: the masked cross-entropy. \<^verbatim>\<open>cross_entropy\<close> refuses a target tensor
  whose number of rows differs from the logits'. \<open>mask_flat\<close> holds 1.0 where the mask bit
  is set and 0.0 elsewhere, so the product \<^verbatim>\<open>loss_per * mask_flat\<close> of line 76 is
  \<open>mul_indicator\<close> row by row.
\<close>

definition masked_loss ::
  "('r, 'c) torch_ops \<Rightarrow> 'r tensor \<Rightarrow> int tensor \<Rightarrow> bool tensor \<Rightarrow> error + fval" where
  "masked_loss ops predicted_logits targets mask_positions =
     (let n = numel predicted_logits;
          mask_bits = map (\<lambda>i. flat mask_positions i) [0..<n];
          mask_flat = map mask_to_float mask_bits
      in if numel targets \<noteq> n then Inl ValueError
         else ebind (mapM (\<lambda>i. cross_entropy ops (flat predicted_logits i) (flat targets i))
                       [0..<n])
                (\<lambda>loss_per.
                   let denom = clamp_min (tensor_sum ops mask_flat) 1
                   in Inr (tensor_div ops
                             (tensor_sum ops (map2 mul_indicator loss_per mask_bits)) denom)))"

text \<open>
  \<^verbatim>\<open>forward(discrete_latents, training, conditioning, targets)\<close>, lines 30 to 78. The
  condition of line 68 is the condition of line 40, so where the loss is computed the
  Mask State is there; the branch for a missing one is never taken.
\<close>

definition forward ::
  "('l, 'cond, 'r) dynamics_model \<Rightarrow> ('r, 'c) torch_ops \<Rightarrow> 'r rng \<Rightarrow> 'l tensor \<Rightarrow> bool \<Rightarrow>
     'cond \<Rightarrow> int tensor option \<Rightarrow>
     error + ('r tensor \<times> bool tensor option \<times> fval option)" where
  "forward M ops g discrete_latents training conditioning targets =
     ebind (apply_masking M g discrete_latents training) (\<lambda>(mask_positions, latents).
       let predicted_logits =
             \<lparr>dim0 = dim0 discrete_latents, dim1 = dim1 discrete_latents,
              dim2 = dim2 discrete_latents, cell = logits_net M latents conditioning\<rparr>
       in if training \<and> self_training M then
            (case targets of
               None \<Rightarrow> Inl AssertionError
             | Some tg \<Rightarrow>
                 (case mask_positions of
                    None \<Rightarrow> Inl RuntimeError
                  | Some mp \<Rightarrow>
                      ebind (masked_loss ops predicted_logits tg mp)
                        (\<lambda>loss. Inr (predicted_logits, mask_positions, Some loss))))
          else Inr (predicted_logits, mask_positions, None))"

section \<open>The schedule\<close>

text \<open>Python's \<^verbatim>\<open>a / b\<close> on integers: true division, raising on a zero divisor.\<close>

definition py_truediv :: "int \<Rightarrow> int \<Rightarrow> error + rat" where
  "py_truediv a b = (if b = 0 then Inl ZeroDivisionError else Inr (of_int a / of_int b))"

fun bit_length :: "nat \<Rightarrow> nat" where
  "bit_length n = (if n = 0 then 0 else Suc (bit_length (n div 2)))"

text \<open>
  Rounding a natural number to \<open>p\<close> significant bits, to nearest and ties to even: with
  \<open>s\<close> the number of bits that do not fit, \<open>q\<close> keeps the leading bits and \<open>r\<close> is the
  part cut off.
\<close>

definition round_to_bits :: "nat \<Rightarrow> nat \<Rightarrow> nat" where
  "round_to_bits p n =
     (let s = bit_length n - p; q = n div 2 ^ s; r = n mod 2 ^ s
      in if 2 ^ s < 2 * r \<or> (2 * r = 2 ^ s \<and> odd q) then (q + 1) * 2 ^ s else q * 2 ^ s)"

text \<open>
  \<^verbatim>\<open>torch.tensor(P_total, dtype=result.dtype)\<close> (line 104). \<^verbatim>\<open>result\<close> is computed from
  \<^verbatim>\<open>torch.tensor(k)\<close> with \<^verbatim>\<open>k\<close> a Python float, so its dtype is PyTorch's default,
  \<^verbatim>\<open>float32\<close>: 24 significant bits, and everything from \<open>2 ^ 128\<close> on is infinite. The
  Python integer reaches the tensor through a C double (53 significant bits).
\<close>

definition float32_of_nat :: "nat \<Rightarrow> fval" where
  "float32_of_nat n =
     (let v = round_to_bits 24 (round_to_bits 53 n)
      in if 2 ^ 128 \<le> v then PInf else Finite (of_nat v))"

text \<open>
  \<^verbatim>\<open>exp_schedule_torch(t, T, P_total, k=schedule_k)\<close>, lines 99 to 105. The argument
  \<open>formula\<close> stands for the floating-point evaluation of
  \<^verbatim>\<open>P_total * torch.expm1(k_tensor * x) / torch.expm1(k_tensor)\<close> (line 102) at the
  call's \<^verbatim>\<open>schedule_k\<close>, as a function of \<^verbatim>\<open>x\<close> and \<^verbatim>\<open>P_total\<close>. The tensor
  arithmetic of that line does not raise, but the Python integer \<^verbatim>\<open>P_total\<close> has to become
  a tensor scalar first: from \<open>2 ^ 64\<close> on it does not fit and line 102 raises
  \<^verbatim>\<open>OverflowError\<close>, before the last-step test of line 103.
\<close>

definition exp_schedule_torch ::
  "(rat \<Rightarrow> nat \<Rightarrow> fval) \<Rightarrow> int \<Rightarrow> int \<Rightarrow> nat \<Rightarrow> error + fval" where
  "exp_schedule_torch formula t T P_total =
     ebind (py_truediv t (max T 1)) (\<lambda>x.
       if 2 ^ 64 \<le> P_total then Inl OverflowError
       else
         let result = formula x P_total
         in if t = T - 1 then Inr (float32_of_nat P_total) else Inr result)"

section \<open>forward_inference\<close>

text \<open>
  The arguments of one decode call. \<open>schedule_formula\<close> takes the place of
  \<^verbatim>\<open>schedule_k\<close> (see \<open>exp_schedule_torch\<close>); \<open>verify_mask\<close> says whether the environment
  variable \<^verbatim>\<open>NG_VERIFY_MASK\<close> is \<^verbatim>\<open>'1'\<close>. \<open>index_to_latents_fn\<close> maps the indices of the
  selected positions of one timestep to their latents.
\<close>

record ('l, 'cond) decode_args =
  context_latents :: "'l tensor"
  prediction_horizon :: nat
  num_steps :: nat
  index_to_latents_fn :: "nat list \<Rightarrow> 'l list"
  conditioning :: 'cond
  schedule_formula :: "rat \<Rightarrow> nat \<Rightarrow> fval"
  temperature :: rat
  verify_mask :: bool

text \<open>
  The decoder's mutable state: the working grid \<^verbatim>\<open>input_latents\<close> of shape
  \<^verbatim>\<open>[B, T_ctx + H, P]\<close> and the Mask State \<^verbatim>\<open>mask\<close> of shape \<^verbatim>\<open>[B, H, P]\<close>. The field
  \<open>writes\<close> is a history variable: it lists, in order, the cells \<open>(b, t_abs, p)\<close> that the
  assignments of lines 168 and 197 have stored to. Nothing reads it.
\<close>

record 'l decode_state =
  input_latents :: "'l tensor"
  mask :: "bool tensor"
  writes :: "(nat \<times> nat \<times> nat) list"

text \<open>
  \<^verbatim>\<open>torch.topk(xs, k, largest=True).indices\<close> for \<open>k \<le> length xs\<close>: the positions of the
  \<open>k\<close> largest entries, largest first. The order among equal entries is the library's
  choice; the model fixes one.
\<close>

definition topk :: "'c::linorder list \<Rightarrow> nat \<Rightarrow> nat list" where
  "topk xs k = take k (rev (sort_key (\<lambda>i. xs ! i) [0..<length xs]))"

text \<open>
  Storing a value tensor through an index list broadcasts a single value and raises on
  any other length mismatch.
\<close>

definition broadcast_to :: "nat \<Rightarrow> 'a list \<Rightarrow> error + 'a list" where
  "broadcast_to n vs =
     (if length vs = n then Inr vs
      else if length vs = 1 then Inr (replicate n (hd vs))
      else Inl RuntimeError)"

text \<open>\<^verbatim>\<open>x[b:b+1, t:t+1, p_list] = vs\<close> and \<^verbatim>\<open>m[b, h, p_list, 0] = False\<close>.\<close>

definition assign_cells :: "'a tensor \<Rightarrow> nat \<Rightarrow> nat \<Rightarrow> nat list \<Rightarrow> 'a list \<Rightarrow> 'a tensor" where
  "assign_cells x b t p_list vs =
     x\<lparr>cell := (\<lambda>b' t' p'. if b' = b \<and> t' = t
                            then (case map_of (zip p_list vs) p' of
                                    Some v \<Rightarrow> v
                                  | None \<Rightarrow> cell x b' t' p')
                            else cell x b' t' p')\<rparr>"

definition clear_cells :: "bool tensor \<Rightarrow> nat \<Rightarrow> nat \<Rightarrow> nat list \<Rightarrow> bool tensor" where
  "clear_cells m b h p_list =
     m\<lparr>cell := (\<lambda>b' h' p'. if b' = b \<and> h' = h \<and> p' \<in> set p_list then False
                            else cell m b' h' p')\<rparr>"

text \<open>
  The body of the loop over \<^verbatim>\<open>unique_h\<close>, lines 160 to 169 and again 189 to 198: the
  selected positions of horizon step \<open>uh\<close> get their predicted latents and leave the
  Mask State.
\<close>

definition write_group ::
  "('l, 'cond) decode_args \<Rightarrow> (nat \<Rightarrow> nat \<Rightarrow> nat \<Rightarrow> nat) \<Rightarrow> nat \<Rightarrow> nat list \<Rightarrow> nat list \<Rightarrow>
     nat \<Rightarrow> 'l decode_state \<Rightarrow> error + 'l decode_state" where
  "write_group a predicted_indices b h_sel p_sel uh st =
     (let p_list = map snd (filter (\<lambda>hp. fst hp = uh) (zip h_sel p_sel))
      in if p_list = [] then Inr st
         else
           let t_abs = dim1 (context_latents a) + uh;
               idx_sel = map (predicted_indices b t_abs) p_list;
               pred_latents_sel = index_to_latents_fn a idx_sel
           in ebind (broadcast_to (length p_list) pred_latents_sel) (\<lambda>vs.
                Inr (st\<lparr>input_latents := assign_cells (input_latents st) b t_abs p_list vs,
                        mask := clear_cells (mask st) b uh p_list,
                        writes := writes st @ map (\<lambda>p. (b, t_abs, p)) p_list\<rparr>)))"

text \<open>\<^verbatim>\<open>torch.unique(h_sel, sorted=True)\<close> and the loop over it.\<close>

definition write_selected ::
  "('l, 'cond) decode_args \<Rightarrow> (nat \<Rightarrow> nat \<Rightarrow> nat \<Rightarrow> nat) \<Rightarrow> nat \<Rightarrow> nat list \<Rightarrow> nat list \<Rightarrow>
     'l decode_state \<Rightarrow> error + 'l decode_state" where
  "write_selected a predicted_indices b h_sel p_sel st =
     foldM (write_group a predicted_indices b h_sel p_sel) (sort (remdups h_sel)) st"

text \<open>
  Lines 134 to 136: the flat indices of the positions of batch element \<open>b\<close> that are
  still masked (\<^verbatim>\<open>mask[b, :, :, 0].view(-1)\<close> is row-major over \<^verbatim>\<open>[H, P]\<close>), and their
  number.
\<close>

definition masked_flat_idx :: "('l, 'cond) decode_args \<Rightarrow> 'l decode_state \<Rightarrow> nat \<Rightarrow> nat list" where
  "masked_flat_idx a st b =
     (let P = dim2 (context_latents a); H = prediction_horizon a
      in filter (\<lambda>i. cell (mask st) b (i div P) (i mod P)) [0..<H * P])"

definition num_masked :: "('l, 'cond) decode_args \<Rightarrow> 'l decode_state \<Rightarrow> nat \<Rightarrow> nat" where
  "num_masked a st b = length (masked_flat_idx a st b)"

text \<open>
  The body of the loop over the batch, lines 133 to 169. \<open>k_b\<close> is computed on Python
  integers; \<^verbatim>\<open>topk\<close> is called only when more positions are masked than \<open>k_b\<close>.
\<close>

definition unmask_batch ::
  "('l, 'cond) decode_args \<Rightarrow> fval \<Rightarrow> (nat \<Rightarrow> nat \<Rightarrow> nat \<Rightarrow> 'c::linorder) \<Rightarrow>
     (nat \<Rightarrow> nat \<Rightarrow> nat \<Rightarrow> nat) \<Rightarrow> nat \<Rightarrow> 'l decode_state \<Rightarrow> error + 'l decode_state" where
  "unmask_batch a n_tokens_raw horizon_probs predicted_indices b st =
     (let P = dim2 (context_latents a); H = prediction_horizon a; P_total = H * P;
          masked = masked_flat_idx a st b
      in if masked = [] then Inr st
         else
           let num_masked_b = length masked;
               prev_b = P_total - num_masked_b
           in ebind (ceil_item n_tokens_raw) (\<lambda>target_unmasked.
                let k_floor = max (P_total div 16) 1;
                    k_b = max (int k_floor)
                            (min (max (target_unmasked - int prev_b) 0) (int num_masked_b));
                    pos_probs_flat = map (\<lambda>i. horizon_probs b (i div P) (i mod P)) masked;
                    sel_flat =
                      (if k_b < int (length pos_probs_flat)
                       then map (\<lambda>j. masked ! j) (topk pos_probs_flat (nat k_b))
                       else masked);
                    h_sel = map (\<lambda>i. i div P) sel_flat;
                    p_sel = map (\<lambda>i. i mod P) sel_flat
                in if h_sel \<noteq> [] then write_selected a predicted_indices b h_sel p_sel st
                   else Inr st))"

text \<open>
  Lines 112 to 130: one scoring pass, the confidence of every cell and its chosen
  class. \<open>final\<close> is the pass of the final completion (lines 177 to 183), which always
  takes the argmax.
\<close>

definition score_pass ::
  "('l, 'cond, 'r) dynamics_model \<Rightarrow> ('r, 'c) torch_ops \<Rightarrow> 'r rng \<Rightarrow> ('l, 'cond) decode_args \<Rightarrow>
     bool \<Rightarrow> nat \<Rightarrow> 'l tensor \<Rightarrow>
     error + ((nat \<Rightarrow> nat \<Rightarrow> nat \<Rightarrow> 'c) \<times> (nat \<Rightarrow> nat \<Rightarrow> nat \<Rightarrow> nat))" where
  "score_pass M ops g a final m x =
     ebind (forward M ops g x False (conditioning a) None) (\<lambda>(logits, _, _).
       let sampling = (temperature a \<noteq> 0 \<and> 0 < temperature a);
           scaled_logits = (\<lambda>b t p. if sampling
                                     then div_scalar ops (cell logits b t p) (temperature a)
                                     else cell logits b t p);
           probs = (\<lambda>b t p. softmax ops (scaled_logits b t p));
           max_probs = (\<lambda>b t p. max_values ops (probs b t p));
           predicted_indices =
             (if sampling \<and> \<not> final then (\<lambda>b t p. categorical g m b t p (probs b t p))
              else (\<lambda>b t p. max_indices ops (probs b t p)))
       in Inr (max_probs, predicted_indices))"

text \<open>The body of the loop over the decode steps, lines 109 to 169.\<close>

definition decode_step ::
  "('l, 'cond, 'r) dynamics_model \<Rightarrow> ('r, 'c::linorder) torch_ops \<Rightarrow> 'r rng \<Rightarrow>
     ('l, 'cond) decode_args \<Rightarrow> nat \<Rightarrow> 'l decode_state \<Rightarrow> error + 'l decode_state" where
  "decode_step M ops g a m st =
     (let B = dim0 (context_latents a); T_ctx = dim1 (context_latents a);
          P = dim2 (context_latents a); H = prediction_horizon a; P_total = H * P
      in ebind (exp_schedule_torch (schedule_formula a) (int m) (int (num_steps a)) P_total)
           (\<lambda>n_tokens_raw.
              ebind (score_pass M ops g a False m (input_latents st))
                (\<lambda>(max_probs, predicted_indices).
                   let horizon_probs =
                         (\<lambda>b h p. max_probs b ((if H = 0 then 0 else T_ctx) + h) p)
                   in foldM (unmask_batch a n_tokens_raw horizon_probs predicted_indices)
                        [0..<B] st)))"

text \<open>The loop over \<^verbatim>\<open>range(num_steps)\<close> with its early exit (lines 108, 172, 173).\<close>

fun decode_loop ::
  "('l, 'cond, 'r) dynamics_model \<Rightarrow> ('r, 'c::linorder) torch_ops \<Rightarrow> 'r rng \<Rightarrow>
     ('l, 'cond) decode_args \<Rightarrow> nat list \<Rightarrow> 'l decode_state \<Rightarrow> error + 'l decode_state" where
  "decode_loop M ops g a [] st = Inr st"
| "decode_loop M ops g a (m # ms) st =
     (case decode_step M ops g a m st of
        Inl e \<Rightarrow> Inl e
      | Inr st' \<Rightarrow> if \<not> tensor_any (mask st') then Inr st' else decode_loop M ops g a ms st')"

text \<open>The final completion, lines 176 to 198.\<close>

definition final_batch ::
  "('l, 'cond) decode_args \<Rightarrow> (nat \<Rightarrow> nat \<Rightarrow> nat \<Rightarrow> nat) \<Rightarrow> nat \<Rightarrow> 'l decode_state \<Rightarrow>
     error + 'l decode_state" where
  "final_batch a predicted_indices b st =
     (let remaining = [(h, p). h \<leftarrow> [0..<prediction_horizon a],
                              p \<leftarrow> [0..<dim2 (context_latents a)], cell (mask st) b h p];
          h_idx = map fst remaining;
          p_idx = map snd remaining
      in if h_idx = [] then Inr st
         else write_selected a predicted_indices b h_idx p_idx st)"

definition final_completion ::
  "('l, 'cond, 'r) dynamics_model \<Rightarrow> ('r, 'c) torch_ops \<Rightarrow> 'r rng \<Rightarrow> ('l, 'cond) decode_args \<Rightarrow>
     'l decode_state \<Rightarrow> error + 'l decode_state" where
  "final_completion M ops g a st =
     (if tensor_any (mask st)
      then ebind (score_pass M ops g a True 0 (input_latents st))
             (\<lambda>(max_probs, predicted_indices).
                foldM (final_batch a predicted_indices) [0..<dim0 (context_latents a)] st)
      else Inr st)"

text \<open>Lines 92 to 97: the working grid and the Mask State at the start.\<close>

definition init_state ::
  "('l, 'cond, 'r) dynamics_model \<Rightarrow> ('l, 'cond) decode_args \<Rightarrow> 'l decode_state" where
  "init_state M a =
     (let ctx = context_latents a; H = prediction_horizon a
      in \<lparr>input_latents =
            \<lparr>dim0 = dim0 ctx, dim1 = dim1 ctx + H, dim2 = dim2 ctx,
             cell = (\<lambda>b t p. if t < dim1 ctx then cell ctx b t p else mask_token M)\<rparr>,
          mask = \<lparr>dim0 = dim0 ctx, dim1 = H, dim2 = dim2 ctx, cell = (\<lambda>b h p. True)\<rparr>,
          writes = []\<rparr>)"

text \<open>Lines 92 to 198: the state when the optional verification is reached.\<close>

definition decode_run ::
  "('l, 'cond, 'r) dynamics_model \<Rightarrow> ('r, 'c::linorder) torch_ops \<Rightarrow> 'r rng \<Rightarrow>
     ('l, 'cond) decode_args \<Rightarrow> error + 'l decode_state" where
  "decode_run M ops g a =
     ebind (decode_loop M ops g a [0..<num_steps a] (init_state M a))
       (final_completion M ops g a)"

definition forward_inference ::
  "('l, 'cond, 'r) dynamics_model \<Rightarrow> ('r, 'c::linorder) torch_ops \<Rightarrow> 'r rng \<Rightarrow>
     ('l, 'cond) decode_args \<Rightarrow> error + 'l tensor" where
  "forward_inference M ops g a =
     ebind (decode_run M ops g a) (\<lambda>st.
       if verify_mask a \<and> tensor_any (mask st) then Inl AssertionError
       else Inr (input_latents st))"

section \<open>Notions the properties are stated with\<close>









text \<open>
  \<open>clamp\<close> as the specification uses it, the ceiling applied last (as \<^verbatim>\<open>torch.clamp\<close>
  does when the floor exceeds the ceiling).
\<close>

definition clamp :: "int \<Rightarrow> int \<Rightarrow> int \<Rightarrow> int" where
  "clamp x floor_v ceiling_v = min ceiling_v (max floor_v x)"

text \<open>
  The positions of batch element \<open>b\<close> committed between two states: those whose mask bit
  is true in the first and false in the second.
\<close>

definition committed ::
  "('l, 'cond) decode_args \<Rightarrow> 'l decode_state \<Rightarrow> 'l decode_state \<Rightarrow> nat \<Rightarrow> nat list" where
  "committed a st st' b =
     (let P = dim2 (context_latents a)
      in filter (\<lambda>i. \<not> cell (mask st') b (i div P) (i mod P)) (masked_flat_idx a st b))"

text \<open>
  Used in the proofs: \<open>batch_commit a b S st st'\<close> says that \<open>st'\<close> is \<open>st\<close> after exactly the
  positions \<open>(h, p) \<in> S\<close> of batch element \<open>b\<close> have been committed: their mask bits are
  cleared and no other, the shapes and the context cells are unchanged, and the cells of
  \<open>S\<close> have been appended to \<open>writes\<close>, each once.
\<close>

definition batch_commit ::
  "('l, 'cond) decode_args \<Rightarrow> nat \<Rightarrow> (nat \<times> nat) set \<Rightarrow> 'l decode_state \<Rightarrow> 'l decode_state \<Rightarrow> bool" where
  "batch_commit a b S st st' \<longleftrightarrow>
     (\<forall>b' h p. cell (mask st') b' h p = (cell (mask st) b' h p \<and> \<not> (b' = b \<and> (h, p) \<in> S))) \<and>
     dim0 (mask st') = dim0 (mask st) \<and> dim1 (mask st') = dim1 (mask st) \<and>
     dim2 (mask st') = dim2 (mask st) \<and>
     dim0 (input_latents st') = dim0 (input_latents st) \<and>
     dim1 (input_latents st') = dim1 (input_latents st) \<and>
     dim2 (input_latents st') = dim2 (input_latents st) \<and>
     (\<forall>b' t p. t < dim1 (context_latents a) \<longrightarrow>
        cell (input_latents st') b' t p = cell (input_latents st) b' t p) \<and>
     (\<exists>ws. writes st' = writes st @ ws \<and> distinct ws \<and>
           set ws = (\<lambda>(h, p). (b, dim1 (context_latents a) + h, p)) ` S)"

text \<open>
  The grid cells \<open>(b, t_abs, p)\<close> of the horizon whose mask bit is true in \<open>st\<close> and false
  in \<open>st'\<close>.
\<close>

definition flipped ::
  "('l, 'cond) decode_args \<Rightarrow> 'l decode_state \<Rightarrow> 'l decode_state \<Rightarrow> (nat \<times> nat \<times> nat) set" where
  "flipped a st st' =
     {(b, dim1 (context_latents a) + h, p) |b h p.
        b < dim0 (context_latents a) \<and> h < prediction_horizon a \<and>
        p < dim2 (context_latents a) \<and> cell (mask st) b h p \<and> \<not> cell (mask st') b h p}"

text \<open>
  Used in the proofs: between \<open>st\<close> and \<open>st'\<close> mask bits only went from true to false,
  shapes and context cells are unchanged, and \<open>writes\<close> grew by exactly the flipped
  cells, each once.
\<close>

definition pass_commit ::
  "('l, 'cond) decode_args \<Rightarrow> 'l decode_state \<Rightarrow> 'l decode_state \<Rightarrow> bool" where
  "pass_commit a st st' \<longleftrightarrow>
     (\<forall>b h p. cell (mask st') b h p \<longrightarrow> cell (mask st) b h p) \<and>
     dim0 (mask st') = dim0 (mask st) \<and> dim1 (mask st') = dim1 (mask st) \<and>
     dim2 (mask st') = dim2 (mask st) \<and>
     dim0 (input_latents st') = dim0 (input_latents st) \<and>
     dim1 (input_latents st') = dim1 (input_latents st) \<and>
     dim2 (input_latents st') = dim2 (input_latents st) \<and>
     (\<forall>b' t p. t < dim1 (context_latents a) \<longrightarrow>
        cell (input_latents st') b' t p = cell (input_latents st) b' t p) \<and>
     (\<exists>ws. writes st' = writes st @ ws \<and> distinct ws \<and> set ws = flipped a st st')"

section \<open>Concrete inputs\<close>

text \<open>
  A small model and small inputs on which the definitions are run: latents are numbers, a
  logits row is a list of three numbers, the probability of a row is its largest entry.
\<close>

definition example_model :: "(nat, unit, nat list) dynamics_model" where
  "example_model =
     \<lparr>mask_token = 0, self_training = True,
      logits_net = (\<lambda>x c b t p. [cell x b t p, b + t + p, 3])\<rparr>"

text \<open>The same model switched to evaluation mode (\<^verbatim>\<open>model.eval()\<close>).\<close>

definition eval_mode_model :: "(nat, unit, nat list) dynamics_model" where
  "eval_mode_model = example_model\<lparr>self_training := False\<rparr>"

text \<open>
  Addition and division that are exact on finite values and follow IEEE 754 on the
  special ones; they stand in for the float32 kernels at inputs where those are exact.
\<close>

definition fadd :: "fval \<Rightarrow> fval \<Rightarrow> fval" where
  "fadd u v =
     (case u of
        Finite a \<Rightarrow> (case v of Finite b \<Rightarrow> Finite (a + b) | PInf \<Rightarrow> PInf | NInf \<Rightarrow> NInf | NaN \<Rightarrow> NaN)
      | PInf \<Rightarrow> (case v of Finite b \<Rightarrow> PInf | PInf \<Rightarrow> PInf | NInf \<Rightarrow> NaN | NaN \<Rightarrow> NaN)
      | NInf \<Rightarrow> (case v of Finite b \<Rightarrow> NInf | PInf \<Rightarrow> NaN | NInf \<Rightarrow> NInf | NaN \<Rightarrow> NaN)
      | NaN \<Rightarrow> NaN)"

definition fdiv :: "fval \<Rightarrow> fval \<Rightarrow> fval" where
  "fdiv u v =
     (case u of
        Finite a \<Rightarrow> (case v of Finite b \<Rightarrow> tdiv a b | PInf \<Rightarrow> Finite 0 | NInf \<Rightarrow> Finite 0 | NaN \<Rightarrow> NaN)
      | PInf \<Rightarrow> (case v of Finite b \<Rightarrow> (if 0 \<le> b then PInf else NInf) | PInf \<Rightarrow> NaN | NInf \<Rightarrow> NaN | NaN \<Rightarrow> NaN)
      | NInf \<Rightarrow> (case v of Finite b \<Rightarrow> (if 0 \<le> b then NInf else PInf) | PInf \<Rightarrow> NaN | NInf \<Rightarrow> NaN | NaN \<Rightarrow> NaN)
      | NaN \<Rightarrow> NaN)"

definition example_ops :: "(nat list, nat) torch_ops" where
  "example_ops =
     \<lparr>div_scalar = (\<lambda>r q. r), softmax = (\<lambda>r. r), max_values = (\<lambda>r. fold max r 0),
      max_indices = (\<lambda>r. length (takeWhile (\<lambda>v. v \<noteq> fold max r 0) r)),
      cross_entropy = (\<lambda>r t. if 0 \<le> t \<and> nat t < length r then Inr (Finite (of_nat (r ! nat t)))
                               else Inl IndexError),
      tensor_sum = (\<lambda>vs. foldl fadd (Finite 0) vs), tensor_div = fdiv\<rparr>"


definition example_rng :: "nat list rng" where
  "example_rng =
     \<lparr>rand_scalar = 0, rand_grid = (\<lambda>b t p. 0), randint_raw = (\<lambda>b p. b + p),
      categorical = (\<lambda>m b t p r. 0)\<rparr>"

definition other_rng :: "nat list rng" where
  "other_rng =
     \<lparr>rand_scalar = 1 / 2, rand_grid = (\<lambda>b t p. 1), randint_raw = (\<lambda>b p. 0),
      categorical = (\<lambda>m b t p r. 2)\<rparr>"

definition example_latents :: "nat tensor" where
  "example_latents = \<lparr>dim0 = 1, dim1 = 2, dim2 = 2, cell = (\<lambda>b t p. 7 + t + p)\<rparr>"

definition example_targets :: "int tensor" where
  "example_targets = \<lparr>dim0 = 1, dim1 = 2, dim2 = 2, cell = (\<lambda>b t p. int p)\<rparr>"



definition example_formula :: "rat \<Rightarrow> nat \<Rightarrow> fval" where
  "example_formula x n = Finite (x * of_nat n)"

definition example_args :: "(nat, unit) decode_args" where
  "example_args =
     \<lparr>context_latents = \<lparr>dim0 = 1, dim1 = 1, dim2 = 2, cell = (\<lambda>b t p. 7 + p)\<rparr>,
      prediction_horizon = 2, num_steps = 2,
      index_to_latents_fn = map (\<lambda>i. 10 + i), conditioning = (),
      schedule_formula = example_formula, temperature = 0, verify_mask = True\<rparr>"

section \<open>Basic facts\<close>

lemma ebind_Inl [simp]: "ebind (Inl e) f = Inl e"
  by (simp add: ebind_def)

lemma ebind_Inr [simp]: "ebind (Inr x) f = f x"
  by (simp add: ebind_def)

lemma ebind_eq_Inr: "ebind m f = Inr y \<longleftrightarrow> (\<exists>x. m = Inr x \<and> f x = Inr y)"
  by (cases m) simp_all


subsection \<open>Row-major flattening\<close>





subsection \<open>forward\<close>

lemma forward_eval:
  "\<not> (training \<and> self_training M) \<Longrightarrow>
   forward M ops g x training c tg =
     Inr (\<lparr>dim0 = dim0 x, dim1 = dim1 x, dim2 = dim2 x, cell = logits_net M x c\<rparr>, None, None)"
  by (auto simp add: forward_def apply_masking_def Let_def)

lemma apply_masking_anchor:
  assumes "apply_masking M g x training = Inr (Some m, x')" "b < dim0 x" "p < dim2 x"
  shows "\<exists>t<dim1 x. \<not> cell m b t p \<and> cell x' b t p = cell x b t p"
  using assms
  by (auto simp add: apply_masking_def Let_def randint_def ebind_eq_Inr split: if_splits)

lemma forward_training_result:
  assumes "forward M ops g x training c targets = Inr (lg, Some m, loss)"
  shows "training \<and> self_training M \<and> dim0 m = dim0 x \<and> dim1 m = dim1 x \<and> dim2 m = dim2 x
     \<and> dim0 lg = dim0 x \<and> dim1 lg = dim1 x \<and> dim2 lg = dim2 x
     \<and> (\<exists>x'. apply_masking M g x training = Inr (Some m, x'))
     \<and> (\<exists>tg l. targets = Some tg \<and> loss = Some l \<and> masked_loss ops lg tg m = Inr l)"
  using assms
  by (auto simp add: forward_def Let_def ebind_eq_Inr apply_masking_def
      split: if_splits option.splits)






subsection \<open>The schedule\<close>

lemma bit_length_le: "bit_length n \<le> p \<longleftrightarrow> n < 2 ^ p"
proof (induction n arbitrary: p rule: bit_length.induct)
  case (1 n)
  show ?case
  proof (cases "n = 0")
    case True
    then show ?thesis by simp
  next
    case False
    show ?thesis
    proof (cases p)
      case 0
      with False show ?thesis by simp
    next
      case (Suc k)
      have "bit_length n \<le> Suc k \<longleftrightarrow> bit_length (n div 2) \<le> k"
        using False by (subst bit_length.simps) simp
      also have "\<dots> \<longleftrightarrow> n div 2 < 2 ^ k" using 1[OF False] by simp
      also have "\<dots> \<longleftrightarrow> n < 2 ^ Suc k" by auto
      finally show ?thesis using Suc by simp
    qed
  qed
qed

lemma round_to_bits_exact: "n < 2 ^ p \<Longrightarrow> round_to_bits p n = n"
  using bit_length_le[of n p] by (simp add: round_to_bits_def Let_def del: bit_length.simps)

lemma float32_exact: "n \<le> 2 ^ 24 \<Longrightarrow> float32_of_nat n = Finite (of_nat n)"
proof -
  assume a: "n \<le> 2 ^ 24"
  have 1: "round_to_bits 53 n = n" using a by (intro round_to_bits_exact) simp
  have 2: "round_to_bits 24 n = n"
  proof (cases "n = 2 ^ 24")
    case True
    then show ?thesis by (simp add: round_to_bits_def Let_def)
  next
    case False
    then show ?thesis using a by (intro round_to_bits_exact) simp
  qed
  show ?thesis using a by (simp add: float32_of_nat_def 1 2 Let_def)
qed

subsection \<open>The decoder: what one commit does\<close>

lemma foldM_append: "foldM f (xs @ ys) s = ebind (foldM f xs s) (foldM f ys)"
  by (induction xs arbitrary: s) (auto split: sum.splits)

lemma batch_commit_refl: "batch_commit a b {} st st"
  by (simp add: batch_commit_def)

lemma batch_commit_mask:
  "batch_commit a b S st st' \<Longrightarrow>
   cell (mask st') b' h p = (cell (mask st) b' h p \<and> \<not> (b' = b \<and> (h, p) \<in> S))"
  by (simp add: batch_commit_def)

lemma batch_commit_dims:
  "batch_commit a b S st st' \<Longrightarrow>
   dim0 (mask st') = dim0 (mask st) \<and> dim1 (mask st') = dim1 (mask st) \<and>
   dim2 (mask st') = dim2 (mask st) \<and>
   dim0 (input_latents st') = dim0 (input_latents st) \<and>
   dim1 (input_latents st') = dim1 (input_latents st) \<and>
   dim2 (input_latents st') = dim2 (input_latents st)"
  by (simp add: batch_commit_def)

lemma batch_commit_frame:
  "batch_commit a b S st st' \<Longrightarrow> t < dim1 (context_latents a) \<Longrightarrow>
   cell (input_latents st') b' t p = cell (input_latents st) b' t p"
  by (simp add: batch_commit_def)

lemma batch_commit_writes:
  "batch_commit a b S st st' \<Longrightarrow>
   \<exists>ws. writes st' = writes st @ ws \<and> distinct ws \<and>
        set ws = (\<lambda>(h, p). (b, dim1 (context_latents a) + h, p)) ` S"
  by (simp add: batch_commit_def)

lemma batch_commitI:
  assumes "\<And>b' h p. cell (mask st') b' h p = (cell (mask st) b' h p \<and> \<not> (b' = b \<and> (h, p) \<in> S))"
    and "dim0 (mask st') = dim0 (mask st) \<and> dim1 (mask st') = dim1 (mask st) \<and>
         dim2 (mask st') = dim2 (mask st) \<and>
         dim0 (input_latents st') = dim0 (input_latents st) \<and>
         dim1 (input_latents st') = dim1 (input_latents st) \<and>
         dim2 (input_latents st') = dim2 (input_latents st)"
    and "\<And>b' t p. t < dim1 (context_latents a) \<Longrightarrow>
           cell (input_latents st') b' t p = cell (input_latents st) b' t p"
    and "\<exists>ws. writes st' = writes st @ ws \<and> distinct ws \<and>
          set ws = (\<lambda>(h, p). (b, dim1 (context_latents a) + h, p)) ` S"
  shows "batch_commit a b S st st'"
  unfolding batch_commit_def using assms by simp

lemma batch_commit_trans:
  assumes "batch_commit a b S1 st st1" "batch_commit a b S2 st1 st2" "S1 \<inter> S2 = {}"
  shows "batch_commit a b (S1 \<union> S2) st st2"
proof (rule batch_commitI)
  let ?c = "\<lambda>(h, p). (b, dim1 (context_latents a) + h, p)"
  obtain w1 where w1: "writes st1 = writes st @ w1" "distinct w1" "set w1 = ?c ` S1"
    using batch_commit_writes[OF assms(1)] by blast
  obtain w2 where w2: "writes st2 = writes st1 @ w2" "distinct w2" "set w2 = ?c ` S2"
    using batch_commit_writes[OF assms(2)] by blast
  have "set w1 \<inter> set w2 = {}"
    unfolding w1 w2 using assms(3) by auto
  then have "writes st2 = writes st @ (w1 @ w2) \<and> distinct (w1 @ w2) \<and>
     set (w1 @ w2) = ?c ` (S1 \<union> S2)"
    using w1 w2 by (simp add: image_Un)
  then show "\<exists>ws. writes st2 = writes st @ ws \<and> distinct ws \<and> set ws = ?c ` (S1 \<union> S2)"
    by blast
  show "cell (mask st2) b' h p = (cell (mask st) b' h p \<and> \<not> (b' = b \<and> (h, p) \<in> S1 \<union> S2))"
    for b' h p
    by (auto simp add: batch_commit_mask[OF assms(1)] batch_commit_mask[OF assms(2)])
  show "cell (input_latents st2) b' t p = cell (input_latents st) b' t p"
    if "t < dim1 (context_latents a)" for b' t p
    using that by (simp add: batch_commit_frame[OF assms(1)] batch_commit_frame[OF assms(2)])
  show "dim0 (mask st2) = dim0 (mask st) \<and> dim1 (mask st2) = dim1 (mask st) \<and>
         dim2 (mask st2) = dim2 (mask st) \<and>
         dim0 (input_latents st2) = dim0 (input_latents st) \<and>
         dim1 (input_latents st2) = dim1 (input_latents st) \<and>
         dim2 (input_latents st2) = dim2 (input_latents st)"
    using batch_commit_dims[OF assms(1)] batch_commit_dims[OF assms(2)] by simp
qed

lemma write_group_commit:
  assumes "write_group a pidx b hs ps uh st = Inr st'" and "distinct (zip hs ps)"
  shows "batch_commit a b {(h, p). h = uh \<and> (h, p) \<in> set (zip hs ps)} st st'"
proof -
  let ?pl = "map snd (filter (\<lambda>hp. fst hp = uh) (zip hs ps))"
  let ?T = "dim1 (context_latents a)"
  have setpl: "set ?pl = {p. (uh, p) \<in> set (zip hs ps)}"
    by (auto simp add: image_iff)
  have dpl: "distinct ?pl"
    using assms(2) by (auto simp add: distinct_map inj_on_def)
  have S: "{(h, p). h = uh \<and> (h, p) \<in> set (zip hs ps)} = (\<lambda>p. (uh, p)) ` set ?pl"
    unfolding setpl by auto
  show ?thesis
  proof (cases "?pl = []")
    case True
    then have "st' = st" using assms(1) by (simp add: write_group_def)
    moreover have "{(h, p). h = uh \<and> (h, p) \<in> set (zip hs ps)} = {}"
      unfolding S using True by simp
    ultimately show ?thesis by (simp only: batch_commit_refl)
  next
    case False
    then obtain vs where st': "st' = st\<lparr>input_latents := assign_cells (input_latents st) b (?T + uh) ?pl vs,
                        mask := clear_cells (mask st) b uh ?pl,
                        writes := writes st @ map (\<lambda>p. (b, ?T + uh, p)) ?pl\<rparr>"
      using assms(1) by (auto simp add: write_group_def Let_def ebind_eq_Inr)
    have "distinct (map (\<lambda>p. (b, ?T + uh, p)) ?pl)"
      using dpl by (simp add: distinct_map inj_on_def)
    moreover have "set (map (\<lambda>p. (b, ?T + uh, p)) ?pl)
        = (\<lambda>(h, p). (b, ?T + h, p)) ` {(h, p). h = uh \<and> (h, p) \<in> set (zip hs ps)}"
      unfolding S by (simp add: image_image)
    ultimately have w: "\<exists>ws. writes st' = writes st @ ws \<and> distinct ws \<and>
        set ws = (\<lambda>(h, p). (b, ?T + h, p)) ` {(h, p). h = uh \<and> (h, p) \<in> set (zip hs ps)}"
      unfolding st' by (intro exI[of _ "map (\<lambda>p. (b, ?T + uh, p)) ?pl"]) simp
    show ?thesis
    proof (rule batch_commitI)
      show "\<exists>ws. writes st' = writes st @ ws \<and> distinct ws \<and>
        set ws = (\<lambda>(h, p). (b, ?T + h, p)) ` {(h, p). h = uh \<and> (h, p) \<in> set (zip hs ps)}"
        by (rule w)
    qed (use setpl in \<open>auto simp add: st' clear_cells_def assign_cells_def\<close>)
  qed
qed

lemma write_groups_commit:
  assumes "foldM (write_group a pidx b hs ps) us st = Inr st'"
    and "distinct (zip hs ps)" and "distinct us"
  shows "batch_commit a b {(h, p). h \<in> set us \<and> (h, p) \<in> set (zip hs ps)} st st'"
  using assms
proof (induction us arbitrary: st)
  case Nil
  then show ?case by (simp add: batch_commit_refl)
next
  case (Cons u us)
  from Cons.prems(1) obtain st1 where
    1: "write_group a pidx b hs ps u st = Inr st1" and
    2: "foldM (write_group a pidx b hs ps) us st1 = Inr st'"
    by (auto split: sum.splits)
  have c1: "batch_commit a b {(h, p). h = u \<and> (h, p) \<in> set (zip hs ps)} st st1"
    by (rule write_group_commit[OF 1 Cons.prems(2)])
  have c2: "batch_commit a b {(h, p). h \<in> set us \<and> (h, p) \<in> set (zip hs ps)} st1 st'"
    using Cons.IH[OF 2 Cons.prems(2)] Cons.prems(3) by simp
  have disj: "{(h, p). h = u \<and> (h, p) \<in> set (zip hs ps)}
      \<inter> {(h, p). h \<in> set us \<and> (h, p) \<in> set (zip hs ps)} = {}"
    using Cons.prems(3) by auto
  have un: "{(h, p). h = u \<and> (h, p) \<in> set (zip hs ps)}
      \<union> {(h, p). h \<in> set us \<and> (h, p) \<in> set (zip hs ps)}
      = {(h, p). h \<in> set (u # us) \<and> (h, p) \<in> set (zip hs ps)}"
    by auto
  show ?case using batch_commit_trans[OF c1 c2 disj] unfolding un .
qed

lemma write_selected_commit:
  assumes "write_selected a pidx b hs ps st = Inr st'" and "distinct (zip hs ps)"
  shows "batch_commit a b (set (zip hs ps)) st st'"
proof -
  have "{(h, p). h \<in> set (sort (remdups hs)) \<and> (h, p) \<in> set (zip hs ps)} = set (zip hs ps)"
    by (auto dest: set_zip_leftD)
  then show ?thesis
    using write_groups_commit[OF assms(1)[unfolded write_selected_def] assms(2)] by simp
qed

lemma topk_distinct: "distinct (topk xs k)"
  by (simp add: topk_def distinct_take)

lemma topk_set: "set (topk xs k) \<subseteq> {..<length xs}"
proof -
  have "set (topk xs k) \<subseteq> set (rev (sort_key (\<lambda>i. xs ! i) [0..<length xs]))"
    unfolding topk_def by (rule set_take_subset)
  then show ?thesis by auto
qed

lemma topk_length: "length (topk xs k) = min k (length xs)"
  by (simp add: topk_def min.commute)

lemma unflat_inj: "(i div P, i mod P) = (j div P, j mod P) \<Longrightarrow> i = (j::nat)"
  by (metis Pair_inject div_mult_mod_eq)

lemma zip_map_same: "zip (map f xs) (map g xs) = map (\<lambda>x. (f x, g x)) xs"
  by (induction xs) simp_all

lemma clamp_arith:
  fixes x kf nm :: int
  assumes "1 \<le> kf" and "0 \<le> nm"
  shows "min (max kf (min (max x 0) nm)) nm = min nm (max kf x)"
  using assms by linarith

lemma unmask_batch_commit:
  assumes "unmask_batch a n hp pidx b st = Inr st'"
  shows "\<exists>sel. distinct sel \<and> set sel \<subseteq> set (masked_flat_idx a st b) \<and>
           batch_commit a b
             ((\<lambda>i. (i div dim2 (context_latents a), i mod dim2 (context_latents a))) ` set sel)
             st st' \<and>
           (masked_flat_idx a st b = [] \<longrightarrow> sel = []) \<and>
           (masked_flat_idx a st b \<noteq> [] \<longrightarrow>
              (\<exists>target. ceil_item n = Inr target \<and>
                 int (length sel) =
                   clamp (target - int (prediction_horizon a * dim2 (context_latents a)
                                          - num_masked a st b))
                     (int (max (prediction_horizon a * dim2 (context_latents a) div 16) 1))
                     (int (num_masked a st b))))"
proof (cases "masked_flat_idx a st b = []")
  case True
  then have "st' = st" using assms by (simp add: unmask_batch_def Let_def)
  then show ?thesis using True
    by (intro exI[of _ "[]"]) (simp add: batch_commit_refl)
next
  case False
  let ?P = "dim2 (context_latents a)"
  let ?H = "prediction_horizon a"
  let ?masked = "masked_flat_idx a st b"
  obtain target where t: "ceil_item n = Inr target"
    using assms False by (auto simp add: unmask_batch_def Let_def ebind_eq_Inr)
  define k_b where "k_b = max (int (max (?H * ?P div 16) 1))
       (min (max (target - int (?H * ?P - length ?masked)) 0) (int (length ?masked)))"
  define probs where "probs = map (\<lambda>i. hp b (i div ?P) (i mod ?P)) ?masked"
  define sel where "sel = (if k_b < int (length probs)
       then map (\<lambda>j. ?masked ! j) (topk probs (nat k_b)) else ?masked)"
  have dm: "distinct ?masked" by (simp add: masked_flat_idx_def Let_def)
  have lp: "length probs = length ?masked" by (simp add: probs_def)
  have dsel: "distinct sel"
  proof (cases "k_b < int (length probs)")
    case True
    have "inj_on (\<lambda>j. ?masked ! j) (set (topk probs (nat k_b)))"
    proof (rule inj_onI)
      fix x y
      assume "x \<in> set (topk probs (nat k_b))" "y \<in> set (topk probs (nat k_b))"
        and e: "?masked ! x = ?masked ! y"
      then have "x < length ?masked" "y < length ?masked"
        using topk_set[of probs "nat k_b"] lp by auto
      then show "x = y" using e dm by (simp add: nth_eq_iff_index_eq)
    qed
    then show ?thesis using True topk_distinct by (simp add: sel_def distinct_map)
  next
    case False
    then show ?thesis using dm by (simp add: sel_def)
  qed
  have ssel: "set sel \<subseteq> set ?masked"
    using topk_set[of probs "nat k_b"] lp by (auto simp add: sel_def)
  have lsel: "int (length sel) = clamp (target - int (?H * ?P - num_masked a st b))
                     (int (max (?H * ?P div 16) 1)) (int (num_masked a st b))"
  proof -
    have kb: "0 \<le> k_b" unfolding k_b_def by simp
    have "length sel = (if k_b < int (length ?masked) then nat k_b else length ?masked)"
      using kb by (simp add: sel_def topk_length lp)
    then have "int (length sel) = min k_b (int (length ?masked))"
      using kb by (simp add: min_def)
    also have "\<dots> = min (int (length ?masked))
        (max (int (max (?H * ?P div 16) 1)) (target - int (?H * ?P - length ?masked)))"
      unfolding k_b_def by (rule clamp_arith) simp_all
    finally show ?thesis by (simp add: clamp_def num_masked_def)
  qed
  have z: "zip (map (\<lambda>i. i div ?P) sel) (map (\<lambda>i. i mod ?P) sel)
      = map (\<lambda>i. (i div ?P, i mod ?P)) sel"
    by (rule zip_map_same)
  have "inj (\<lambda>i. (i div ?P, i mod ?P))"
    by (rule injI) (rule unflat_inj)
  then have "inj_on (\<lambda>i. (i div ?P, i mod ?P)) (set sel)"
    by (rule inj_on_subset) simp
  then have dz: "distinct (zip (map (\<lambda>i. i div ?P) sel) (map (\<lambda>i. i mod ?P) sel))"
    unfolding z using dsel by (simp add: distinct_map)
  have run: "(if sel \<noteq> [] then write_selected a pidx b (map (\<lambda>i. i div ?P) sel)
                 (map (\<lambda>i. i mod ?P) sel) st else Inr st) = Inr st'"
  proof -
    have "unmask_batch a n hp pidx b st =
       (if sel \<noteq> [] then write_selected a pidx b (map (\<lambda>i. i div ?P) sel)
                 (map (\<lambda>i. i mod ?P) sel) st else Inr st)"
      using False t unfolding unmask_batch_def sel_def probs_def k_b_def
      by (simp only: Let_def if_False ebind_Inr map_is_Nil_conv)
    then show ?thesis using assms by simp
  qed
  have bc: "batch_commit a b ((\<lambda>i. (i div ?P, i mod ?P)) ` set sel) st st'"
  proof (cases "sel = []")
    case True
    then show ?thesis using run by (simp add: batch_commit_refl)
  next
    case False
    then have "write_selected a pidx b (map (\<lambda>i. i div ?P) sel) (map (\<lambda>i. i mod ?P) sel) st
        = Inr st'" using run by simp
    from write_selected_commit[OF this dz] show ?thesis unfolding z by simp
  qed
  show ?thesis
    using dsel ssel bc lsel t False by (intro exI[of _ sel]) simp
qed

lemma comprehension_row:
  "concat (map (\<lambda>p. if c h p then [(h, p)] else []) ys)
     = filter (\<lambda>(h, p). c h p) (map (Pair h) ys)"
  by (induction ys) simp_all

lemma comprehension_filter_product:
  "[(h, p). h \<leftarrow> xs, p \<leftarrow> ys, c h p] = filter (\<lambda>(h, p). c h p) (List.product xs ys)"
  by (induction xs) (simp_all add: comprehension_row)

lemma final_batch_commit:
  assumes "final_batch a pidx b st = Inr st'"
  shows "batch_commit a b
           {(h, p). h < prediction_horizon a \<and> p < dim2 (context_latents a) \<and>
                    cell (mask st) b h p} st st'"
proof -
  let ?r = "[(h, p). h \<leftarrow> [0..<prediction_horizon a],
                    p \<leftarrow> [0..<dim2 (context_latents a)], cell (mask st) b h p]"
  have sr: "set ?r = {(h, p). h < prediction_horizon a \<and> p < dim2 (context_latents a) \<and>
                    cell (mask st) b h p}"
    by auto
  have dr: "distinct ?r"
    unfolding comprehension_filter_product by (simp add: distinct_product)
  have z: "zip (map fst ?r) (map snd ?r) = ?r" by (rule zip_map_fst_snd)
  have eq: "final_batch a pidx b st =
      (if ?r = [] then Inr st else write_selected a pidx b (map fst ?r) (map snd ?r) st)"
    by (simp only: final_batch_def Let_def map_is_Nil_conv)
  show ?thesis
  proof (cases "?r = []")
    case True
    then have "st' = st" using assms unfolding eq by simp
    moreover have "set ?r = {}" using True by (simp only: set_empty)
    ultimately show ?thesis unfolding sr[symmetric] by (simp only: batch_commit_refl)
  next
    case False
    then have "write_selected a pidx b (map fst ?r) (map snd ?r) st = Inr st'"
      using assms unfolding eq by (simp only: if_False)
    from write_selected_commit[OF this] dr show ?thesis unfolding z sr by simp
  qed
qed

lemma pass_commit_mono:
  "pass_commit a st st' \<Longrightarrow> cell (mask st') b h p \<Longrightarrow> cell (mask st) b h p"
  by (simp add: pass_commit_def)

lemma pass_commit_dims:
  "pass_commit a st st' \<Longrightarrow>
   dim0 (mask st') = dim0 (mask st) \<and> dim1 (mask st') = dim1 (mask st) \<and>
   dim2 (mask st') = dim2 (mask st) \<and>
   dim0 (input_latents st') = dim0 (input_latents st) \<and>
   dim1 (input_latents st') = dim1 (input_latents st) \<and>
   dim2 (input_latents st') = dim2 (input_latents st)"
  by (simp add: pass_commit_def)

lemma pass_commit_frame:
  "pass_commit a st st' \<Longrightarrow> t < dim1 (context_latents a) \<Longrightarrow>
   cell (input_latents st') b' t p = cell (input_latents st) b' t p"
  by (simp add: pass_commit_def)

lemma pass_commit_writes:
  "pass_commit a st st' \<Longrightarrow>
   \<exists>ws. writes st' = writes st @ ws \<and> distinct ws \<and> set ws = flipped a st st'"
  by (simp add: pass_commit_def)

lemma pass_commitI:
  assumes "\<And>b h p. cell (mask st') b h p \<Longrightarrow> cell (mask st) b h p"
    and "dim0 (mask st') = dim0 (mask st) \<and> dim1 (mask st') = dim1 (mask st) \<and>
         dim2 (mask st') = dim2 (mask st) \<and>
         dim0 (input_latents st') = dim0 (input_latents st) \<and>
         dim1 (input_latents st') = dim1 (input_latents st) \<and>
         dim2 (input_latents st') = dim2 (input_latents st)"
    and "\<And>b' t p. t < dim1 (context_latents a) \<Longrightarrow>
           cell (input_latents st') b' t p = cell (input_latents st) b' t p"
    and "\<exists>ws. writes st' = writes st @ ws \<and> distinct ws \<and> set ws = flipped a st st'"
  shows "pass_commit a st st'"
  unfolding pass_commit_def using assms by simp

lemma flipped_same: "flipped a st st = {}"
  by (simp add: flipped_def)

lemma pass_commit_refl: "pass_commit a st st"
  by (rule pass_commitI) (simp_all add: flipped_same)

lemma flipped_trans:
  assumes "\<And>b h p. cell (mask st1) b h p \<Longrightarrow> cell (mask st) b h p"
    and "\<And>b h p. cell (mask st2) b h p \<Longrightarrow> cell (mask st1) b h p"
  shows "flipped a st st2 = flipped a st st1 \<union> flipped a st1 st2"
    and "flipped a st st1 \<inter> flipped a st1 st2 = {}"
proof -
  show "flipped a st st2 = flipped a st st1 \<union> flipped a st1 st2"
    using assms unfolding flipped_def by blast
  show "flipped a st st1 \<inter> flipped a st1 st2 = {}"
    unfolding flipped_def by auto
qed

lemma pass_commit_trans:
  assumes "pass_commit a st st1" and "pass_commit a st1 st2"
  shows "pass_commit a st st2"
proof (rule pass_commitI)
  obtain w1 where w1: "writes st1 = writes st @ w1" "distinct w1" "set w1 = flipped a st st1"
    using pass_commit_writes[OF assms(1)] by blast
  obtain w2 where w2: "writes st2 = writes st1 @ w2" "distinct w2" "set w2 = flipped a st1 st2"
    using pass_commit_writes[OF assms(2)] by blast
  note ft = flipped_trans[of st1 st st2 a, OF pass_commit_mono[OF assms(1)]
      pass_commit_mono[OF assms(2)]]
  have "writes st2 = writes st @ (w1 @ w2) \<and> distinct (w1 @ w2) \<and>
      set (w1 @ w2) = flipped a st st2"
    using w1 w2 ft by simp
  then show "\<exists>ws. writes st2 = writes st @ ws \<and> distinct ws \<and> set ws = flipped a st st2"
    by blast
  show "cell (mask st2) b h p \<Longrightarrow> cell (mask st) b h p" for b h p
    using pass_commit_mono[OF assms(1)] pass_commit_mono[OF assms(2)] by blast
  show "cell (input_latents st2) b' t p = cell (input_latents st) b' t p"
    if "t < dim1 (context_latents a)" for b' t p
    using that by (simp add: pass_commit_frame[OF assms(1)] pass_commit_frame[OF assms(2)])
  show "dim0 (mask st2) = dim0 (mask st) \<and> dim1 (mask st2) = dim1 (mask st) \<and>
         dim2 (mask st2) = dim2 (mask st) \<and>
         dim0 (input_latents st2) = dim0 (input_latents st) \<and>
         dim1 (input_latents st2) = dim1 (input_latents st) \<and>
         dim2 (input_latents st2) = dim2 (input_latents st)"
    using pass_commit_dims[OF assms(1)] pass_commit_dims[OF assms(2)] by simp
qed

lemma batch_to_pass:
  assumes "batch_commit a b S st st'" and "b < dim0 (context_latents a)"
    and "S \<subseteq> {(h, p). h < prediction_horizon a \<and> p < dim2 (context_latents a) \<and>
                      cell (mask st) b h p}"
  shows "pass_commit a st st'"
proof (rule pass_commitI)
  have "flipped a st st' = (\<lambda>(h, p). (b, dim1 (context_latents a) + h, p)) ` S"
  proof (rule set_eqI)
    fix c
    show "c \<in> flipped a st st' \<longleftrightarrow> c \<in> (\<lambda>(h, p). (b, dim1 (context_latents a) + h, p)) ` S"
    proof
      assume "c \<in> flipped a st st'"
      then obtain h p where "c = (b, dim1 (context_latents a) + h, p)" "(h, p) \<in> S"
        unfolding flipped_def by (auto simp add: batch_commit_mask[OF assms(1)])
      then show "c \<in> (\<lambda>(h, p). (b, dim1 (context_latents a) + h, p)) ` S"
        by (intro image_eqI[of _ _ "(h, p)"]) simp_all
    next
      assume "c \<in> (\<lambda>(h, p). (b, dim1 (context_latents a) + h, p)) ` S"
      then obtain h p where c: "c = (b, dim1 (context_latents a) + h, p)" and hp: "(h, p) \<in> S"
        by auto
      then have "h < prediction_horizon a \<and> p < dim2 (context_latents a) \<and>
          cell (mask st) b h p" using assms(3) by auto
      then show "c \<in> flipped a st st'"
        unfolding flipped_def c using hp assms(2)
        by (auto simp add: batch_commit_mask[OF assms(1)])
    qed
  qed
  then show "\<exists>ws. writes st' = writes st @ ws \<and> distinct ws \<and> set ws = flipped a st st'"
    using batch_commit_writes[OF assms(1)] by simp
  show "cell (mask st') b' h p \<Longrightarrow> cell (mask st) b' h p" for b' h p
    by (simp add: batch_commit_mask[OF assms(1)])
  show "cell (input_latents st') b' t p = cell (input_latents st) b' t p"
    if "t < dim1 (context_latents a)" for b' t p
    using that by (rule batch_commit_frame[OF assms(1)])
  show "dim0 (mask st') = dim0 (mask st) \<and> dim1 (mask st') = dim1 (mask st) \<and>
         dim2 (mask st') = dim2 (mask st) \<and>
         dim0 (input_latents st') = dim0 (input_latents st) \<and>
         dim1 (input_latents st') = dim1 (input_latents st) \<and>
         dim2 (input_latents st') = dim2 (input_latents st)"
    by (rule batch_commit_dims[OF assms(1)])
qed

lemma masked_flat_idx_set:
  "set (masked_flat_idx a st b) =
     {i. i < prediction_horizon a * dim2 (context_latents a) \<and>
         cell (mask st) b (i div dim2 (context_latents a)) (i mod dim2 (context_latents a))}"
  by (auto simp add: masked_flat_idx_def Let_def)

lemma unflat_range:
  assumes "i < H * P"
  shows "i div P < H \<and> i mod P < (P::nat)"
proof -
  have "0 < P" using assms by (cases P) simp_all
  then show ?thesis using assms by (simp add: less_mult_imp_div_less mult.commute)
qed

lemma unmask_batch_pass:
  assumes "unmask_batch a n hp pidx b st = Inr st'" and "b < dim0 (context_latents a)"
  shows "pass_commit a st st'"
proof -
  obtain sel where sel: "set sel \<subseteq> set (masked_flat_idx a st b)"
    and bc: "batch_commit a b
       ((\<lambda>i. (i div dim2 (context_latents a), i mod dim2 (context_latents a))) ` set sel) st st'"
    using unmask_batch_commit[OF assms(1)] by blast
  have "(\<lambda>i. (i div dim2 (context_latents a), i mod dim2 (context_latents a))) ` set sel
      \<subseteq> {(h, p). h < prediction_horizon a \<and> p < dim2 (context_latents a) \<and>
                      cell (mask st) b h p}"
    using sel unflat_range unfolding masked_flat_idx_set by auto
  from batch_to_pass[OF bc assms(2) this] show ?thesis .
qed

lemma final_batch_pass:
  assumes "final_batch a pidx b st = Inr st'" and "b < dim0 (context_latents a)"
  shows "pass_commit a st st'"
  by (rule batch_to_pass[OF final_batch_commit[OF assms(1)] assms(2)]) simp

lemma foldM_pass:
  assumes "foldM f bs st = Inr st'"
    and "\<And>b s s'. b \<in> set bs \<Longrightarrow> f b s = Inr s' \<Longrightarrow> pass_commit a s s'"
  shows "pass_commit a st st'"
  using assms
proof (induction bs arbitrary: st)
  case Nil
  then show ?case by (simp add: pass_commit_refl)
next
  case (Cons b bs)
  from Cons.prems(1) obtain s1 where 1: "f b st = Inr s1" and 2: "foldM f bs s1 = Inr st'"
    by (auto split: sum.splits)
  have "pass_commit a st s1" using Cons.prems(2)[OF _ 1] by simp
  moreover have "pass_commit a s1 st'"
  proof (rule Cons.IH[OF 2])
    fix b' s s' assume "b' \<in> set bs" "f b' s = Inr s'"
    then show "pass_commit a s s'" using Cons.prems(2)[of b' s s'] by simp
  qed
  ultimately show ?case by (rule pass_commit_trans)
qed

lemma decode_step_foldM:
  fixes ops :: "('r, 'c::linorder) torch_ops"
  assumes "decode_step M ops g a m st = Inr st'"
  shows "\<exists>n hp pidx.
     exp_schedule_torch (schedule_formula a) (int m) (int (num_steps a))
       (prediction_horizon a * dim2 (context_latents a)) = Inr n \<and>
     foldM (unmask_batch a n (hp :: nat \<Rightarrow> nat \<Rightarrow> nat \<Rightarrow> 'c::linorder) pidx)
       [0..<dim0 (context_latents a)] st = Inr st'"
proof -
  obtain n where n: "exp_schedule_torch (schedule_formula a) (int m) (int (num_steps a))
       (prediction_horizon a * dim2 (context_latents a)) = Inr n"
    and r: "ebind (score_pass M ops g a False m (input_latents st))
                (\<lambda>(max_probs, predicted_indices).
                   foldM (unmask_batch a n
                       (\<lambda>b h p. max_probs b ((if prediction_horizon a = 0 then 0
                                    else dim1 (context_latents a)) + h) p) predicted_indices)
                        [0..<dim0 (context_latents a)] st) = Inr st'"
    using assms unfolding decode_step_def Let_def ebind_eq_Inr by blast
  obtain sc where sc: "score_pass M ops g a False m (input_latents st) = Inr sc"
    and r2: "(\<lambda>(max_probs, predicted_indices).
                   foldM (unmask_batch a n
                       (\<lambda>b h p. max_probs b ((if prediction_horizon a = 0 then 0
                                    else dim1 (context_latents a)) + h) p) predicted_indices)
                        [0..<dim0 (context_latents a)] st) sc = Inr st'"
    using r unfolding ebind_eq_Inr by blast
  obtain mp pidx where "sc = (mp, pidx)" by (cases sc)
  then have "foldM (unmask_batch a n
                       (\<lambda>b h p. mp b ((if prediction_horizon a = 0 then 0
                                    else dim1 (context_latents a)) + h) p) pidx)
                        [0..<dim0 (context_latents a)] st = Inr st'"
    using r2 by simp
  then show ?thesis using n by blast
qed

lemma decode_step_pass:
  fixes ops :: "('r, 'c::linorder) torch_ops"
  assumes "decode_step M ops g a m st = Inr st'"
  shows "pass_commit a st st'"
proof -
  obtain n and hp :: "nat \<Rightarrow> nat \<Rightarrow> nat \<Rightarrow> 'c" and pidx where
    f: "foldM (unmask_batch a n hp pidx) [0..<dim0 (context_latents a)] st = Inr st'"
    using decode_step_foldM[OF assms] by blast
  show ?thesis
    by (rule foldM_pass[OF f]) (simp add: unmask_batch_pass)
qed

lemma final_completion_pass:
  assumes "final_completion M ops g a st = Inr st'"
  shows "pass_commit a st st'"
proof (cases "tensor_any (mask st)")
  case False
  then show ?thesis using assms by (simp add: final_completion_def pass_commit_refl)
next
  case True
  then obtain pidx where
    f: "foldM (final_batch a pidx) [0..<dim0 (context_latents a)] st = Inr st'"
    using assms by (auto simp add: final_completion_def ebind_eq_Inr)
  show ?thesis
    by (rule foldM_pass[OF f]) (simp add: final_batch_pass)
qed

lemma decode_loop_pass:
  assumes "decode_loop M ops g a ms st = Inr st'"
  shows "pass_commit a st st'"
  using assms
proof (induction ms arbitrary: st)
  case Nil
  then show ?case by (simp add: pass_commit_refl)
next
  case (Cons m ms)
  from Cons.prems obtain s1 where 1: "decode_step M ops g a m st = Inr s1"
    and 2: "(if \<not> tensor_any (mask s1) then Inr s1 else decode_loop M ops g a ms s1) = Inr st'"
    by (auto split: sum.splits)
  have p1: "pass_commit a st s1" by (rule decode_step_pass[OF 1])
  show ?case
  proof (cases "tensor_any (mask s1)")
    case True
    then have "decode_loop M ops g a ms s1 = Inr st'" using 2 by simp
    from pass_commit_trans[OF p1 Cons.IH[OF this]] show ?thesis .
  next
    case False
    then show ?thesis using 2 p1 by simp
  qed
qed

lemma decode_run_pass:
  assumes "decode_run M ops g a = Inr st"
  shows "pass_commit a (init_state M a) st"
proof -
  obtain s1 where 1: "decode_loop M ops g a [0..<num_steps a] (init_state M a) = Inr s1"
    and 2: "final_completion M ops g a s1 = Inr st"
    using assms by (auto simp add: decode_run_def ebind_eq_Inr)
  from pass_commit_trans[OF decode_loop_pass[OF 1] final_completion_pass[OF 2]]
  show ?thesis .
qed

lemma tensor_any_iff:
  "tensor_any m \<longleftrightarrow> (\<exists>b<dim0 m. \<exists>h<dim1 m. \<exists>p<dim2 m. cell m b h p)"
  unfolding tensor_any_def list_ex_iff by (simp add: Bex_def)

lemma init_state_simps:
  "dim0 (mask (init_state M a)) = dim0 (context_latents a)"
  "dim1 (mask (init_state M a)) = prediction_horizon a"
  "dim2 (mask (init_state M a)) = dim2 (context_latents a)"
  "cell (mask (init_state M a)) b h p"
  "dim0 (input_latents (init_state M a)) = dim0 (context_latents a)"
  "dim1 (input_latents (init_state M a)) = dim1 (context_latents a) + prediction_horizon a"
  "dim2 (input_latents (init_state M a)) = dim2 (context_latents a)"
  "t < dim1 (context_latents a) \<Longrightarrow>
     cell (input_latents (init_state M a)) b t p = cell (context_latents a) b t p"
  "writes (init_state M a) = []"
  by (simp_all add: init_state_def Let_def)

lemma final_fold_clears:
  assumes "foldM (final_batch a pidx) bs st = Inr st'"
    and "\<forall>b\<in>set bs. b < dim0 (context_latents a)"
  shows "\<forall>b\<in>set bs. \<forall>h<prediction_horizon a. \<forall>p<dim2 (context_latents a).
           \<not> cell (mask st') b h p"
  using assms
proof (induction bs arbitrary: st)
  case Nil
  then show ?case by simp
next
  case (Cons b bs)
  from Cons.prems(1) obtain s1 where 1: "final_batch a pidx b st = Inr s1"
    and 2: "foldM (final_batch a pidx) bs s1 = Inr st'"
    by (auto split: sum.splits)
  have row: "\<not> cell (mask s1) b h p"
    if "h < prediction_horizon a" "p < dim2 (context_latents a)" for h p
    using that by (simp add: batch_commit_mask[OF final_batch_commit[OF 1]])
  have "pass_commit a s1 st'"
    by (rule foldM_pass[OF 2]) (use Cons.prems(2) in \<open>simp add: final_batch_pass\<close>)
  then have "\<not> cell (mask st') b h p"
    if "h < prediction_horizon a" "p < dim2 (context_latents a)" for h p
    using row[OF that] pass_commit_mono by blast
  moreover have "\<forall>b\<in>set bs. \<forall>h<prediction_horizon a. \<forall>p<dim2 (context_latents a).
           \<not> cell (mask st') b h p"
    using Cons.IH[OF 2] Cons.prems(2) by simp
  ultimately show ?case by simp
qed

lemma final_completion_clears:
  assumes "final_completion M ops g a st = Inr st'"
    and "dim0 (mask st) = dim0 (context_latents a)"
    and "dim1 (mask st) = prediction_horizon a"
    and "dim2 (mask st) = dim2 (context_latents a)"
    and "b < dim0 (context_latents a)" and "h < prediction_horizon a"
    and "p < dim2 (context_latents a)"
  shows "\<not> cell (mask st') b h p"
proof (cases "tensor_any (mask st)")
  case False
  then have "st' = st" using assms(1) by (simp add: final_completion_def)
  then show ?thesis using False assms(2-) unfolding tensor_any_iff by auto
next
  case True
  then obtain pidx where
    f: "foldM (final_batch a pidx) [0..<dim0 (context_latents a)] st = Inr st'"
    using assms(1) by (auto simp add: final_completion_def ebind_eq_Inr)
  from final_fold_clears[OF f] assms(5-) show ?thesis by simp
qed

lemma decode_run_clears:
  fixes ops :: "('r, 'c::linorder) torch_ops"
  assumes "decode_run M ops g a = Inr st"
    and "b < dim0 (context_latents a)" and "h < prediction_horizon a"
    and "p < dim2 (context_latents a)"
  shows "\<not> cell (mask st) b h p"
proof -
  obtain s1 where 1: "decode_loop M ops g a [0..<num_steps a] (init_state M a) = Inr s1"
    and 2: "final_completion M ops g a s1 = Inr st"
    using assms(1) by (auto simp add: decode_run_def ebind_eq_Inr)
  have d: "dim0 (mask s1) = dim0 (context_latents a)" "dim1 (mask s1) = prediction_horizon a"
    "dim2 (mask s1) = dim2 (context_latents a)"
    using pass_commit_dims[OF decode_loop_pass[OF 1]] by (simp_all add: init_state_simps)
  from final_completion_clears[OF 2 d assms(2-)] show ?thesis .
qed

lemma masked_flat_idx_mono:
  assumes "\<And>h p. cell (mask st') b h p \<Longrightarrow> cell (mask st) b h p"
  shows "masked_flat_idx a st' b =
     filter (\<lambda>i. cell (mask st') b (i div dim2 (context_latents a)) (i mod dim2 (context_latents a)))
       (masked_flat_idx a st b)"
  using assms unfolding masked_flat_idx_def Let_def
  by (auto simp add: filter_filter intro!: filter_cong)

lemma num_masked_split:
  assumes "\<And>h p. cell (mask st') b h p \<Longrightarrow> cell (mask st) b h p"
  shows "num_masked a st' b + length (committed a st st' b) = num_masked a st b"
proof -
  let ?Q = "\<lambda>i. cell (mask st') b (i div dim2 (context_latents a)) (i mod dim2 (context_latents a))"
  have "num_masked a st' b = length (filter ?Q (masked_flat_idx a st b))"
    using masked_flat_idx_mono[OF assms, where a = a] by (simp only: num_masked_def)
  moreover have "length (committed a st st' b)
      = length (filter (\<lambda>i. \<not> ?Q i) (masked_flat_idx a st b))"
    by (simp only: committed_def Let_def)
  ultimately show ?thesis
    using sum_length_filter_compl[of ?Q "masked_flat_idx a st b"]
    by (simp only: num_masked_def)
qed

lemma masked_flat_idx_cong:
  assumes "\<And>h p. cell (mask st') b h p = cell (mask st) b h p"
  shows "masked_flat_idx a st' b = masked_flat_idx a st b"
  unfolding masked_flat_idx_def Let_def using assms by simp

lemma foldM_unmask_other_rows:
  assumes "foldM (unmask_batch a n hp pidx) bs st = Inr st'" and "b \<notin> set bs"
  shows "cell (mask st') b h p = cell (mask st) b h p"
  using assms
proof (induction bs arbitrary: st)
  case Nil
  then show ?case by simp
next
  case (Cons x bs)
  from Cons.prems(1) obtain s1 where 1: "unmask_batch a n hp pidx x st = Inr s1"
    and 2: "foldM (unmask_batch a n hp pidx) bs s1 = Inr st'"
    by (auto split: sum.splits)
  obtain sel where bc: "batch_commit a x
       ((\<lambda>i. (i div dim2 (context_latents a), i mod dim2 (context_latents a))) ` set sel) st s1"
    using unmask_batch_commit[OF 1] by blast
  have "cell (mask s1) b h p = cell (mask st) b h p"
    using Cons.prems(2) by (simp add: batch_commit_mask[OF bc])
  moreover have "cell (mask st') b h p = cell (mask s1) b h p"
    using Cons.IH[OF 2] Cons.prems(2) by simp
  ultimately show ?case by simp
qed

lemma length_filter_member:
  assumes "distinct xs" and "distinct ys" and "set ys \<subseteq> set xs"
  shows "length (filter (\<lambda>i. i \<in> set ys) xs) = length ys"
proof -
  have "length (filter (\<lambda>i. i \<in> set ys) xs) = card ({i. i \<in> set ys} \<inter> set xs)"
    by (rule distinct_length_filter[OF assms(1)])
  also have "{i. i \<in> set ys} \<inter> set xs = set ys" using assms(3) by auto
  finally show ?thesis using assms(2) by (simp add: distinct_card)
qed

lemma unmask_batch_count:
  assumes "unmask_batch a n hp pidx b st = Inr st'" and "ceil_item n = Inr target"
  shows "int (length (committed a st st' b)) =
           clamp (target - int (prediction_horizon a * dim2 (context_latents a)
                                  - num_masked a st b))
             (int (max (prediction_horizon a * dim2 (context_latents a) div 16) 1))
             (int (num_masked a st b))"
proof -
  let ?P = "dim2 (context_latents a)"
  obtain sel where d: "distinct sel" and s: "set sel \<subseteq> set (masked_flat_idx a st b)"
    and bc: "batch_commit a b ((\<lambda>i. (i div ?P, i mod ?P)) ` set sel) st st'"
    and e: "masked_flat_idx a st b = [] \<longrightarrow> sel = []"
    and l: "masked_flat_idx a st b \<noteq> [] \<longrightarrow>
              (\<exists>target. ceil_item n = Inr target \<and>
                 int (length sel) =
                   clamp (target - int (prediction_horizon a * ?P - num_masked a st b))
                     (int (max (prediction_horizon a * ?P div 16) 1))
                     (int (num_masked a st b)))"
    using unmask_batch_commit[OF assms(1)] by blast
  have "committed a st st' b = filter (\<lambda>i. i \<in> set sel) (masked_flat_idx a st b)"
    unfolding committed_def Let_def
  proof (rule filter_cong[OF refl])
    fix i assume "i \<in> set (masked_flat_idx a st b)"
    then have "cell (mask st) b (i div ?P) (i mod ?P)" by (simp add: masked_flat_idx_set)
    moreover have "(i div ?P, i mod ?P) \<in> (\<lambda>i. (i div ?P, i mod ?P)) ` set sel \<longleftrightarrow> i \<in> set sel"
    proof -
      have "inj (\<lambda>i. (i div ?P, i mod ?P))" by (rule injI) (rule unflat_inj)
      then show ?thesis by (rule inj_image_mem_iff)
    qed
    ultimately show "(\<not> cell (mask st') b (i div ?P) (i mod ?P)) = (i \<in> set sel)"
      by (simp add: batch_commit_mask[OF bc])
  qed
  then have len: "length (committed a st st' b) = length sel"
    using length_filter_member[OF _ d s] by (simp add: masked_flat_idx_def Let_def)
  show ?thesis
  proof (cases "masked_flat_idx a st b = []")
    case True
    then show ?thesis using e len by (simp add: clamp_def num_masked_def)
  next
    case False
    then show ?thesis using l len assms(2) by auto
  qed
qed



lemma score_pass_rng:
  assumes "\<not> 0 < temperature a \<or> final"
  shows "score_pass M ops g a final m x = score_pass M ops g' a final m x"
  using assms by (auto simp add: score_pass_def forward_eval)

lemma decode_step_rng:
  fixes ops :: "('r, 'c::linorder) torch_ops"
  assumes "\<not> 0 < temperature a"
  shows "decode_step M ops g a m st = decode_step M ops g' a m st"
  unfolding decode_step_def using score_pass_rng[where a = a and final = False and M = M and ops = ops and g = g and m = m and g' = g'] assms by simp

lemma decode_loop_rng:
  fixes ops :: "('r, 'c::linorder) torch_ops"
  assumes "\<not> 0 < temperature a"
  shows "decode_loop M ops g a ms st = decode_loop M ops g' a ms st"
proof (induction ms arbitrary: st)
  case Nil
  then show ?case by simp
next
  case (Cons m ms)
  then show ?case using decode_step_rng[OF assms, where M = M and ops = ops and g = g and m = m and st = st and g' = g']
    by (simp split: sum.splits)
qed

lemma final_completion_rng:
  "final_completion M ops g a st = final_completion M ops g' a st"
  unfolding final_completion_def using score_pass_rng[where a = a and final = True and M = M and ops = ops and g = g and m = 0 and g' = g'] by simp

lemma foldM_total:
  assumes "\<And>x s. x \<in> set xs \<Longrightarrow> \<exists>s'. f x s = Inr s'"
  shows "\<exists>s'. foldM f xs s = Inr s'"
  using assms
proof (induction xs arbitrary: s)
  case Nil
  then show ?case by simp
next
  case (Cons x xs)
  obtain s1 where 1: "f x s = Inr s1" using Cons.prems[of x s] by auto
  obtain s2 where "foldM f xs s1 = Inr s2" using Cons.IH[of s1] Cons.prems by auto
  then show ?case using 1 by simp
qed

lemma write_selected_total:
  assumes "\<And>idx. length (index_to_latents_fn a idx) = length idx"
  shows "\<exists>st'. write_selected a pidx b hs ps st = Inr st'"
  unfolding write_selected_def
  by (rule foldM_total) (simp add: write_group_def Let_def broadcast_to_def assms)

lemma unmask_batch_total:
  assumes "\<And>idx. length (index_to_latents_fn a idx) = length idx"
    and "ceil_item n = Inr t"
  shows "\<exists>st'. unmask_batch a n hp pidx b st = Inr st'"
  using write_selected_total[OF assms(1)] assms(2)
  by (simp add: unmask_batch_def Let_def)

lemma final_batch_total:
  assumes "\<And>idx. length (index_to_latents_fn a idx) = length idx"
  shows "\<exists>st'. final_batch a pidx b st = Inr st'"
  using write_selected_total[OF assms(1)]
  by (simp add: final_batch_def Let_def)

lemma schedule_finite:
  assumes "\<And>x. \<exists>q. schedule_formula a x (prediction_horizon a * dim2 (context_latents a))
                       = Finite q"
    and "prediction_horizon a * dim2 (context_latents a) \<le> 2 ^ 24"
  shows "\<exists>v t. exp_schedule_torch (schedule_formula a) m T
                 (prediction_horizon a * dim2 (context_latents a)) = Inr v \<and>
               ceil_item v = Inr t"
proof -
  obtain q where "schedule_formula a (of_int m / of_int (max T 1))
      (prediction_horizon a * dim2 (context_latents a)) = Finite q"
    using assms(1) by blast
  moreover have "\<not> (2::nat) ^ 64 \<le> prediction_horizon a * dim2 (context_latents a)"
    using assms(2) by (simp add: not_le le_less_trans)
  ultimately show ?thesis
    using float32_exact[OF assms(2)]
    by (simp add: exp_schedule_torch_def py_truediv_def Let_def ceil_item_def)
qed

lemma decode_step_total:
  fixes ops :: "('r, 'c::linorder) torch_ops"
  assumes "\<And>idx. length (index_to_latents_fn a idx) = length idx"
    and "\<And>x. \<exists>q. schedule_formula a x (prediction_horizon a * dim2 (context_latents a))
                       = Finite q"
    and "prediction_horizon a * dim2 (context_latents a) \<le> 2 ^ 24"
  shows "\<exists>st'. decode_step M ops g a m st = Inr st'"
proof -
  obtain v t where v: "exp_schedule_torch (schedule_formula a) (int m) (int (num_steps a))
                 (prediction_horizon a * dim2 (context_latents a)) = Inr v"
    and t: "ceil_item v = Inr t"
    using schedule_finite[OF assms(2,3)] by blast
  have "\<exists>st'. foldM (unmask_batch a v hp pidx) [0..<dim0 (context_latents a)] st = Inr st'"
    for hp :: "nat \<Rightarrow> nat \<Rightarrow> nat \<Rightarrow> 'c" and pidx
    by (rule foldM_total) (rule unmask_batch_total[OF assms(1) t])
  then show ?thesis
    using v by (simp add: decode_step_def Let_def score_pass_def forward_eval)
qed

lemma decode_loop_total:
  fixes ops :: "('r, 'c::linorder) torch_ops"
  assumes "\<And>idx. length (index_to_latents_fn a idx) = length idx"
    and "\<And>x. \<exists>q. schedule_formula a x (prediction_horizon a * dim2 (context_latents a))
                       = Finite q"
    and "prediction_horizon a * dim2 (context_latents a) \<le> 2 ^ 24"
  shows "\<exists>st'. decode_loop M ops g a ms st = Inr st'"
proof (induction ms arbitrary: st)
  case Nil
  then show ?case by simp
next
  case (Cons m ms)
  obtain s1 where "decode_step M ops g a m st = Inr s1"
    using decode_step_total[OF assms, of M ops g m st] by blast
  then show ?case using Cons.IH[of s1] by simp
qed

lemma final_completion_total:
  assumes "\<And>idx. length (index_to_latents_fn a idx) = length idx"
  shows "\<exists>st'. final_completion M ops g a st = Inr st'"
proof -
  have "\<exists>st'. foldM (final_batch a pidx) [0..<dim0 (context_latents a)] st = Inr st'" for pidx
    by (rule foldM_total) (rule final_batch_total[OF assms])
  then show ?thesis
    by (simp add: final_completion_def score_pass_def forward_eval Let_def)
qed

lemma decode_run_total:
  fixes ops :: "('r, 'c::linorder) torch_ops"
  assumes "\<And>idx. length (index_to_latents_fn a idx) = length idx"
    and "\<And>x. \<exists>q. schedule_formula a x (prediction_horizon a * dim2 (context_latents a))
                       = Finite q"
    and "prediction_horizon a * dim2 (context_latents a) \<le> 2 ^ 24"
  shows "\<exists>st. decode_run M ops g a = Inr st"
proof -
  obtain s1 where 1: "decode_loop M ops g a [0..<num_steps a] (init_state M a) = Inr s1"
    using decode_loop_total[OF assms, of M ops g "[0..<num_steps a]" "init_state M a"] by blast
  obtain st where "final_completion M ops g a s1 = Inr st"
    using final_completion_total[OF assms(1), of M ops g s1] by blast
  then show ?thesis using 1 by (simp add: decode_run_def)
qed

lemma decode_run_verified:
  fixes ops :: "('r, 'c::linorder) torch_ops"
  assumes "decode_run M ops g a = Inr st"
  shows "forward_inference M ops g a = Inr (input_latents st)"
proof -
  have d: "dim0 (mask st) = dim0 (context_latents a)" "dim1 (mask st) = prediction_horizon a"
    "dim2 (mask st) = dim2 (context_latents a)"
    using pass_commit_dims[OF decode_run_pass[OF assms]] by (simp_all add: init_state_simps)
  have "\<not> tensor_any (mask st)"
    unfolding tensor_any_iff d using decode_run_clears[OF assms] by blast
  then show ?thesis using assms by (simp add: forward_inference_def)
qed

lemma example_args_ok:
  "length (index_to_latents_fn example_args idx) = length idx"
  "\<exists>q. schedule_formula example_args x
          (prediction_horizon example_args * dim2 (context_latents example_args)) = Finite q"
  "prediction_horizon example_args * dim2 (context_latents example_args) \<le> 2 ^ 24"
  by (simp_all add: example_args_def example_formula_def)

lemma example_run_returns:
  "\<exists>st. decode_run example_model example_ops g example_args = Inr st"
  by (rule decode_run_total) (rule example_args_ok)+

lemma example_step_returns:
  "\<exists>st'. decode_step example_model example_ops g example_args m st = Inr st'"
  by (rule decode_step_total) (rule example_args_ok)+

lemma score_pass_samples:
  assumes "0 < temperature a"
  shows "score_pass M ops g a False m x =
     Inr (\<lambda>b t p. max_values ops
                     (softmax ops (div_scalar ops (logits_net M x (conditioning a) b t p)
                        (temperature a))),
          \<lambda>b t p. categorical g m b t p
                     (softmax ops (div_scalar ops (logits_net M x (conditioning a) b t p)
                        (temperature a))))"
  using assms by (simp add: score_pass_def forward_eval)

section \<open>Properties of forward and of the schedule\<close>

text \<open>
  C3 (anchor invariant). When \<open>forward\<close> returns a Mask State, which it does exactly in
  training mode, every (batch, position) pair has a timestep whose mask bit is false, and
  at that timestep the latent handed to the network is the input's, not the mask token.
\<close>

theorem anchor_invariant:
  assumes "forward M ops g x training c targets = Inr (lg, Some m, loss)"
    and "b < dim0 x" and "p < dim2 x"
  shows "\<exists>t<dim1 x. \<not> cell m b t p \<and>
           (\<exists>x'. apply_masking M g x training = Inr (Some m, x') \<and>
                  cell x' b t p = cell x b t p)"
proof -
  obtain x' where x': "apply_masking M g x training = Inr (Some m, x')"
    using forward_training_result[OF assms(1)] by blast
  from apply_masking_anchor[OF x' assms(2,3)] x' show ?thesis by blast
qed

theorem anchor_invariant_witness:
  "\<exists>lg m loss.
     forward example_model example_ops example_rng example_latents True ()
       (Some example_targets) = Inr (lg, Some m, loss) \<and>
     (\<exists>t<dim1 example_latents. \<not> cell m 0 t 1 \<and>
        (\<exists>x'. apply_masking example_model example_rng example_latents True = Inr (Some m, x') \<and>
               cell x' 0 t 1 = cell example_latents 0 t 1))"
proof -
  have "\<exists>lg m loss.
     forward example_model example_ops example_rng example_latents True ()
       (Some example_targets) = Inr (lg, Some m, loss)"
    by (simp add: forward_def apply_masking_def masked_loss_def randint_def numel_def flat_def
        example_model_def example_ops_def example_rng_def example_latents_def
        example_targets_def Let_def upt_conv_Cons)
  then obtain lg m loss where r:
    "forward example_model example_ops example_rng example_latents True ()
       (Some example_targets) = Inr (lg, Some m, loss)"
    by blast
  have "(0::nat) < dim0 example_latents" "(1::nat) < dim2 example_latents"
    by (simp_all add: example_latents_def)
  from anchor_invariant[OF r this] r show ?thesis by blast
qed




text \<open>
  C9 (missing targets), as amended. When the \<^verbatim>\<open>training\<close> argument is true and the module
  is in training mode (\<^verbatim>\<open>self.training\<close>), \<open>forward\<close> with \<^verbatim>\<open>targets=None\<close> raises: the
  assertion of line 69 fails, unless the masking has already raised because the grid has
  no timestep. In that mode the loss is never skipped: whenever \<open>forward\<close> returns,
  targets were given and a loss comes back.
\<close>

theorem missing_targets_raise:
  assumes "training" and "self_training M"
  shows "(\<exists>e. forward M ops g x training c None = Inl e) \<and>
         (0 < dim1 x \<longrightarrow> forward M ops g x training c None = Inl AssertionError) \<and>
         (\<forall>targets lg m loss.
            forward M ops g x training c targets = Inr (lg, m, loss) \<longrightarrow>
            (\<exists>tg l. targets = Some tg \<and> loss = Some l))"
proof (intro conjI allI impI)
  show e: "\<exists>e. forward M ops g x training c None = Inl e"
    using assms by (auto simp add: forward_def apply_masking_def Let_def randint_def)
  show "forward M ops g x training c None = Inl AssertionError" if "0 < dim1 x"
    using assms that by (simp add: forward_def apply_masking_def Let_def randint_def)
  show "\<exists>tg l. targets = Some tg \<and> loss = Some l"
    if fw: "forward M ops g x training c targets = Inr (lg, m, loss)" for targets lg m loss
  proof (cases targets)
    case None
    then show ?thesis using e fw by auto
  next
    case (Some tg)
    obtain r where 1: "apply_masking M g x training = Inr r"
      using fw unfolding forward_def ebind_eq_Inr by blast
    obtain mp lat where r: "r = (mp, lat)" by (cases r)
    show ?thesis
    proof (cases mp)
      case None
      then show ?thesis using fw assms 1 r Some by (simp add: forward_def Let_def)
    next
      case mp': (Some mp')
      then show ?thesis
        using fw assms 1 r Some
        by (auto simp add: forward_def Let_def ebind_eq_Inr)
    qed
  qed
qed

theorem missing_targets_raise_witness:
  "forward example_model example_ops example_rng example_latents True () None
     = Inl AssertionError"
proof -
  have "self_training example_model" by (simp add: example_model_def)
  from missing_targets_raise[OF TrueI this, where x = example_latents and ops = example_ops
      and g = example_rng and c = "()"]
  show ?thesis by (simp add: example_latents_def)
qed

text \<open>
  The claim as stated, an error whenever training is requested without targets, fails
  for a module in evaluation mode: the guard of lines 40 and 68 is
  \<^verbatim>\<open>training and self.training\<close>, so the call with \<^verbatim>\<open>training=True\<close> and \<^verbatim>\<open>targets=None\<close>
  returns \<^verbatim>\<open>(logits, None, None)\<close>: no error and no loss.
\<close>

theorem missing_targets_raise_counterexample:
  "forward eval_mode_model example_ops example_rng example_latents True () None =
     Inr (\<lparr>dim0 = dim0 example_latents, dim1 = dim1 example_latents,
           dim2 = dim2 example_latents,
           cell = logits_net eval_mode_model example_latents ()\<rparr>, None, None)"
  by (rule forward_eval) (simp add: eval_mode_model_def)

text \<open>
  C10 (non-training mode). Unless the call is in training mode, in particular whenever
  \<^verbatim>\<open>training=False\<close>, \<open>forward\<close> hands the input latents to the network as they are and
  returns \<^verbatim>\<open>(logits, None, None)\<close>.
\<close>

theorem forward_not_training:
  assumes "\<not> (training \<and> self_training M)"
  shows "apply_masking M g x training = Inr (None, x) \<and>
         forward M ops g x training c targets =
           Inr (\<lparr>dim0 = dim0 x, dim1 = dim1 x, dim2 = dim2 x, cell = logits_net M x c\<rparr>,
                None, None)"
  using assms forward_eval[of training M ops g x c targets]
  by (auto simp add: apply_masking_def Let_def)

theorem forward_not_training_witness:
  "apply_masking example_model example_rng example_latents False = Inr (None, example_latents) \<and>
   forward example_model example_ops example_rng example_latents False () None =
     Inr (\<lparr>dim0 = dim0 example_latents, dim1 = dim1 example_latents,
           dim2 = dim2 example_latents,
           cell = logits_net example_model example_latents ()\<rparr>, None, None)"
  using forward_not_training[where training = False and M = example_model
      and g = example_rng and x = example_latents and ops = example_ops and c = "()"
      and targets = None]
  by simp

text \<open>
  C7 (schedule boundary), as amended. For every \<open>T \<ge> 1\<close> and every \<open>N \<le> 2 ^ 24\<close> the
  schedule at the last step, \<open>t = T - 1\<close>, returns exactly \<open>N\<close>, whatever the formula gives.
  For every \<open>T\<close>, also below 1, the divisor of \<^verbatim>\<open>t / max(T, 1)\<close> is at least 1, so the
  schedule never divides by zero.
\<close>

theorem schedule_boundary:
  fixes T T' t :: int
  assumes "1 \<le> T" and "N \<le> 2 ^ 24"
  shows "exp_schedule_torch formula (T - 1) T N = Inr (Finite (of_nat N)) \<and>
         1 \<le> max T' 1 \<and>
         (\<exists>x. py_truediv t (max T' 1) = Inr x) \<and>
         exp_schedule_torch formula t T' N' \<noteq> Inl ZeroDivisionError"
proof -
  have "N < 2 ^ 64" using assms(2) by (rule le_less_trans) simp
  then have "exp_schedule_torch formula (T - 1) T N = Inr (Finite (of_nat N))"
    using assms by (simp add: exp_schedule_torch_def py_truediv_def float32_exact Let_def)
  moreover have "exp_schedule_torch formula t T' N' \<noteq> Inl ZeroDivisionError"
    by (simp add: exp_schedule_torch_def py_truediv_def Let_def)
  ultimately show ?thesis by (simp add: py_truediv_def)
qed

theorem schedule_boundary_witness:
  "exp_schedule_torch example_formula 3 4 12 = Inr (Finite 12) \<and>
   exp_schedule_torch example_formula 0 0 12 \<noteq> Inl ZeroDivisionError"
  using schedule_boundary[where T = 4 and N = 12 and formula = example_formula and N' = 12
      and T' = 0 and t = 0]
  by simp

text \<open>
  The claim as stated, exactly \<open>N\<close> for every \<open>N\<close>, fails at \<open>N = 16777217 = 2 ^ 24 + 1\<close>
  with a single step: the tensor holds \<open>16777216\<close>.
\<close>

theorem schedule_boundary_counterexample:
  "exp_schedule_torch example_formula (1 - 1) 1 16777217 = Inr (Finite 16777216) \<and>
   exp_schedule_torch example_formula (1 - 1) 1 16777217 \<noteq> Inr (Finite (of_nat 16777217))"
  by (simp add: exp_schedule_torch_def py_truediv_def float32_of_nat_def round_to_bits_def
      Let_def)

section \<open>Properties of forward_inference\<close>

text \<open>
  C1 (decoding postcondition). Whenever the decoder reaches the end of the final
  completion, for any horizon and any step budget, no horizon position is masked: every
  mask bit of the shape \<^verbatim>\<open>[B, H, P]\<close> is false, \<^verbatim>\<open>mask.any()\<close> is false, and so
  \<open>forward_inference\<close> returns the working grid also with the verification switched on.
  (\<open>decode_run_total\<close> shows that this end is reached when \<open>index_to_latents_fn\<close>
  keeps the length and the schedule values are finite.)
\<close>

theorem decode_postcondition:
  fixes ops :: "('r, 'c::linorder) torch_ops"
  assumes "decode_run M ops g a = Inr st"
  shows "(\<forall>b<dim0 (context_latents a). \<forall>h<prediction_horizon a.
            \<forall>p<dim2 (context_latents a). \<not> cell (mask st) b h p) \<and>
         \<not> tensor_any (mask st) \<and>
         forward_inference M ops g a = Inr (input_latents st)"
proof -
  have d: "dim0 (mask st) = dim0 (context_latents a)" "dim1 (mask st) = prediction_horizon a"
    "dim2 (mask st) = dim2 (context_latents a)"
    using pass_commit_dims[OF decode_run_pass[OF assms]] by (simp_all add: init_state_simps)
  have c: "\<forall>b<dim0 (context_latents a). \<forall>h<prediction_horizon a.
            \<forall>p<dim2 (context_latents a). \<not> cell (mask st) b h p"
    using decode_run_clears[OF assms] by blast
  then have n: "\<not> tensor_any (mask st)" unfolding tensor_any_iff d by blast
  then show ?thesis using c assms by (simp add: forward_inference_def)
qed

theorem decode_postcondition_witness:
  "\<exists>st. decode_run example_model example_ops example_rng example_args = Inr st \<and>
        1 \<le> prediction_horizon example_args \<and> 1 \<le> num_steps example_args \<and>
        \<not> cell (mask st) 0 1 1 \<and> \<not> tensor_any (mask st) \<and>
        forward_inference example_model example_ops example_rng example_args
          = Inr (input_latents st)"
proof -
  obtain st where r: "decode_run example_model example_ops example_rng example_args = Inr st"
    using example_run_returns by blast
  have "(0::nat) < dim0 (context_latents example_args)"
    "(1::nat) < prediction_horizon example_args" "(1::nat) < dim2 (context_latents example_args)"
    "1 \<le> num_steps example_args"
    by (simp_all add: example_args_def)
  with decode_postcondition[OF r] r show ?thesis by auto
qed

text \<open>
  C2 (number committed per step). In a decode step whose schedule value has the
  ceiling \<open>n\<close>, the positions of batch element \<open>b\<close> committed by the step number
  \<open>clamp (n - numResolved) (max (totalMaskable div 16) 1) numMasked\<close> with
  \<open>numResolved = totalMaskable - numMasked\<close>, the ceiling applied last; this is at most
  the number still masked, and the masked count drops by it.
\<close>

theorem commit_count:
  fixes ops :: "('r, 'c::linorder) torch_ops"
  assumes "decode_step M ops g a m st = Inr st'"
    and "b < dim0 (context_latents a)"
    and "exp_schedule_torch (schedule_formula a) (int m) (int (num_steps a))
           (prediction_horizon a * dim2 (context_latents a)) = Inr v"
    and "ceil_item v = Inr n"
  shows "int (length (committed a st st' b)) =
           clamp (n - int (prediction_horizon a * dim2 (context_latents a) - num_masked a st b))
             (int (max (prediction_horizon a * dim2 (context_latents a) div 16) 1))
             (int (num_masked a st b)) \<and>
         length (committed a st st' b) \<le> num_masked a st b \<and>
         num_masked a st' b = num_masked a st b - length (committed a st st' b)"
proof -
  let ?B = "dim0 (context_latents a)"
  obtain n' and hp :: "nat \<Rightarrow> nat \<Rightarrow> nat \<Rightarrow> 'c" and pidx where
    n': "exp_schedule_torch (schedule_formula a) (int m) (int (num_steps a))
           (prediction_horizon a * dim2 (context_latents a)) = Inr n'"
    and f: "foldM (unmask_batch a n' hp pidx) [0..<?B] st = Inr st'"
    using decode_step_foldM[OF assms(1)] by blast
  have nv: "n' = v" using n' assms(3) by simp
  have sp: "[0..<?B] = [0..<b] @ b # [Suc b..<?B]"
    using assms(2) by (metis le_add_diff_inverse less_imp_le_nat upt_add_eq_append upt_conv_Cons zero_le)
  obtain s1 where 1: "foldM (unmask_batch a n' hp pidx) [0..<b] st = Inr s1"
    and 23: "foldM (unmask_batch a n' hp pidx) (b # [Suc b..<?B]) s1 = Inr st'"
    using f unfolding sp foldM_append ebind_eq_Inr by blast
  obtain s2 where 2: "unmask_batch a n' hp pidx b s1 = Inr s2"
    and 3: "foldM (unmask_batch a n' hp pidx) [Suc b..<?B] s2 = Inr st'"
    using 23 by (cases "unmask_batch a n' hp pidx b s1") simp_all
  have r1: "cell (mask s1) b h p = cell (mask st) b h p" for h p
    by (rule foldM_unmask_other_rows[OF 1]) simp
  have r2: "cell (mask st') b h p = cell (mask s2) b h p" for h p
    by (rule foldM_unmask_other_rows[OF 3]) simp
  have m1: "masked_flat_idx a s1 b = masked_flat_idx a st b"
    by (rule masked_flat_idx_cong) (rule r1)
  have c: "committed a st st' b = committed a s1 s2 b"
    unfolding committed_def Let_def m1 by (simp add: r2)
  have nm: "num_masked a s1 b = num_masked a st b" by (simp add: num_masked_def m1)
  have count: "int (length (committed a st st' b)) =
           clamp (n - int (prediction_horizon a * dim2 (context_latents a) - num_masked a st b))
             (int (max (prediction_horizon a * dim2 (context_latents a) div 16) 1))
             (int (num_masked a st b))"
    using unmask_batch_count[OF 2] assms(4) nv unfolding c nm by simp
  have mono: "cell (mask st') b h p \<Longrightarrow> cell (mask st) b h p" for h p
    using pass_commit_mono[OF decode_step_pass[OF assms(1)]] by blast
  from num_masked_split[where st' = st' and st = st and b = b and a = a, OF mono] count
  show ?thesis by simp
qed

theorem commit_count_witness:
  "\<exists>st'. decode_step example_model example_ops example_rng example_args 0
            (init_state example_model example_args) = Inr st' \<and>
         length (committed example_args (init_state example_model example_args) st' 0) = 1 \<and>
         num_masked example_args st' 0 = 3"
proof -
  obtain st' where r: "decode_step example_model example_ops example_rng example_args 0
            (init_state example_model example_args) = Inr st'"
    using example_step_returns by blast
  have b: "0 < dim0 (context_latents example_args)" by (simp add: example_args_def)
  have v: "exp_schedule_torch (schedule_formula example_args) (int 0)
      (int (num_steps example_args))
      (prediction_horizon example_args * dim2 (context_latents example_args)) = Inr (Finite 0)"
    by (simp add: example_args_def exp_schedule_torch_def py_truediv_def example_formula_def)
  have n: "ceil_item (Finite 0) = Inr 0" by (simp add: ceil_item_def)
  have m: "num_masked example_args (init_state example_model example_args) 0 = 4"
    by (simp add: num_masked_def masked_flat_idx_def init_state_def example_args_def)
  from commit_count[OF r b v n] r show ?thesis
    by (simp add: m clamp_def) (simp add: example_args_def)
qed



text \<open>
  C6 (context frame). The grid that \<open>forward_inference\<close> returns has the shape
  \<^verbatim>\<open>[B, T_ctx + H, P]\<close> and its first \<open>T_ctx\<close> timesteps are the input context; every store
  of the run went to a time index of \<open>T_ctx\<close> or later.
\<close>

theorem context_untouched:
  fixes ops :: "('r, 'c::linorder) torch_ops"
  assumes "forward_inference M ops g a = Inr out"
  shows "dim0 out = dim0 (context_latents a) \<and>
         dim1 out = dim1 (context_latents a) + prediction_horizon a \<and>
         dim2 out = dim2 (context_latents a) \<and>
         (\<forall>b t p. t < dim1 (context_latents a) \<longrightarrow>
            cell out b t p = cell (context_latents a) b t p) \<and>
         (\<exists>st. decode_run M ops g a = Inr st \<and> out = input_latents st \<and>
               (\<forall>c\<in>set (writes st). dim1 (context_latents a) \<le> fst (snd c)))"
proof -
  obtain st where r: "decode_run M ops g a = Inr st" and o: "out = input_latents st"
    using assms by (auto simp add: forward_inference_def ebind_eq_Inr split: if_splits)
  note p = decode_run_pass[OF r]
  obtain ws where "writes st = writes (init_state M a) @ ws"
    "set ws = flipped a (init_state M a) st"
    using pass_commit_writes[OF p] by blast
  then have w: "\<forall>c\<in>set (writes st). dim1 (context_latents a) \<le> fst (snd c)"
    by (auto simp add: init_state_simps flipped_def)
  show ?thesis
    using pass_commit_dims[OF p] pass_commit_frame[OF p] r o w
    by (simp add: init_state_simps)
qed

theorem context_untouched_witness:
  "\<exists>out. forward_inference example_model example_ops example_rng example_args = Inr out \<and>
         dim1 out = 3 \<and> cell out 0 0 1 = 8"
proof -
  obtain st where "decode_run example_model example_ops example_rng example_args = Inr st"
    using example_run_returns by blast
  then obtain out where
    r: "forward_inference example_model example_ops example_rng example_args = Inr out"
    using decode_run_verified[of example_model example_ops example_rng example_args st]
    by blast
  from context_untouched[OF r] r show ?thesis by (simp add: example_args_def)
qed

text \<open>
  C8 (determinism at temperature 0). With temperature 0 the result of
  \<open>forward_inference\<close> does not depend on the state of the random generator: two calls
  with the same model, kernels and arguments return the same grid (or the same error)
  whatever the generator holds. The network \<open>logits_net\<close> is a function of its inputs.
\<close>

theorem temperature_zero_deterministic:
  fixes ops :: "('r, 'c::linorder) torch_ops"
  assumes "temperature a = 0"
  shows "forward_inference M ops g a = forward_inference M ops g' a"
proof -
  have t: "\<not> 0 < temperature a" using assms by simp
  have "decode_run M ops g a = decode_run M ops g' a"
    unfolding decode_run_def using decode_loop_rng[OF t, where M = M and ops = ops and g = g and g' = g']
      final_completion_rng[where M = M and ops = ops and g = g and a = a and g' = g']
    by (simp add: ebind_def split: sum.splits)
  then show ?thesis by (simp add: forward_inference_def)
qed

theorem temperature_zero_deterministic_witness:
  "forward_inference example_model example_ops example_rng example_args
     = forward_inference example_model example_ops other_rng example_args"
proof -
  have "temperature example_args = 0" by (simp add: example_args_def)
  from temperature_zero_deterministic[OF this] show ?thesis .
qed

end
